theory Spec2Isabelle
  imports Main
begin

section \<open>Syntax tree nodes\<close>

text \<open>
  The parser walks libcst nodes. Only the node classes that \<open>_parser.py\<close> matches on are
  kept apart; every other expression class is \<open>OtherExpression\<close> (carrying its class name),
  every binary operator other than \<open>|\<close> is \<open>OtherOperator\<close>, and a subscript element
  whose \<open>slice\<close> is not an \<open>Index\<close> is \<open>Slice\<close>. The text of a \<open>SimpleString\<close> is its
  source text, prefix and quote characters included, as libcst stores it.
\<close>

datatype BaseBinaryOp = BitOr | OtherOperator

datatype expr =
    Name string
  | Subscript expr "BaseSlice list"
  | BinaryOperation expr BaseBinaryOp expr
  | SimpleString string
  | Dict
  | OtherExpression string
and BaseSlice =
    Index expr
  | Slice

section \<open>The canonical type model\<close>

text \<open>
  Modelled from the spec: \<open>pydantic2zod/_model.py\<close> is imported by the parser but is not
  among the sources. The variants and their attributes are the ones the parser constructs
  and matches on. \<open>LiteralType\<close> is built with \<open>value=\<close> (\<open>_parse_literal\<close>) and matched
  with \<open>type=\<close> (\<open>_get_user_defined_types\<close>), so it carries both: the wrapped type is
  \<open>None\<close> when the attribute is unset.
\<close>

datatype PyType =
    PrimitiveType string
  | BuiltinType string
  | GenericType string "PyType list"
  | UnionType "PyType list"
  | LiteralType "PyType option" string
  | TupleType "PyType list"
  | UserDefinedType string

datatype PyValue = PyString string | PyNone | PyDict

record ClassField =
  field_name :: string
  field_type :: PyType
  default_value :: "PyValue option"
  field_comment :: "string option"

record ClassDecl =
  name :: string
  base_classes :: "string list"
  class_fields :: "ClassField list"
  comment :: "string option"

text \<open>
  Exceptions of the source, as values: \<open>assert False\<close> in \<open>_extract_type\<close> and in
  \<open>_parse_generic_type\<close>, a failed \<open>cst.ensure_type\<close>, a failed \<open>assert node.value\<close>,
  a missing dictionary key, \<open>ImportError\<close> of \<open>importlib.util.resolve_name\<close>, and a list
  index out of range.
\<close>

datatype error =
    UnexpectedNode
  | UnexpectedGenericType string
  | EnsureTypeFailed
  | AssertionFailed
  | KeyError string
  | ImportError
  | IndexError

section \<open>The field type extractor\<close>

definition primitive_or_user_defined_type :: "string \<Rightarrow> PyType" where
  "primitive_or_user_defined_type type_name =
     (if type_name \<in> set [''str'', ''bytes'', ''bool'', ''int'', ''float'', ''None'']
      then PrimitiveType type_name
      else if type_name \<in> set [''dict'', ''Dict''] then BuiltinType ''dict''
      else if type_name \<in> set [''list'', ''List''] then BuiltinType ''list''
      else UserDefinedType type_name)"

text \<open>\<open>value.replace('"', "")\<close>: every double-quote character is removed.\<close>

definition strip_dquotes :: "string \<Rightarrow> string" where
  "strip_dquotes s = filter (\<lambda>c. c \<noteq> CHR 0x22) s"

text \<open>The loop of \<open>_parse_literal\<close> over the subscript elements.\<close>

fun literal_values :: "BaseSlice list \<Rightarrow> error + string list" where
  "literal_values [] = Inr []"
| "literal_values (Index (SimpleString v) # rest) =
     (case literal_values rest of
        Inl e \<Rightarrow> Inl e
      | Inr vs \<Rightarrow> Inr (strip_dquotes v # vs))"
| "literal_values (_ # rest) = Inl EnsureTypeFailed"

definition parse_literal :: "BaseSlice list \<Rightarrow> error + PyType" where
  "parse_literal sl =
     (case literal_values sl of
        Inl e \<Rightarrow> Inl e
      | Inr vs \<Rightarrow>
          (if length vs = 1 then Inr (LiteralType None (hd vs))
           else Inr (UnionType (map (LiteralType None) vs))))"

text \<open>The flattening of one operand in \<open>_extract_union\<close>.\<close>

fun union_members :: "PyType \<Rightarrow> PyType list" where
  "union_members (UnionType types) = types"
| "union_members single_type = [single_type]"

function (sequential)
  extract_type_py :: "expr \<Rightarrow> error + PyType" and
  parse_generic_type :: "expr \<Rightarrow> BaseSlice list \<Rightarrow> error + PyType" and
  parse_types_list :: "BaseSlice list \<Rightarrow> error + PyType list" and
  extract_union :: "expr \<Rightarrow> BaseBinaryOp \<Rightarrow> expr \<Rightarrow> error + PyType"
where
  "extract_type_py (Name type_name) = Inr (primitive_or_user_defined_type type_name)"
| "extract_type_py (Subscript v sl) = parse_generic_type v sl"
| "extract_type_py (BinaryOperation l operator r) = extract_union l operator r"
| "extract_type_py _ = Inl UnexpectedNode"
| "parse_generic_type (Name generic_type) sl =
     (if generic_type = ''Literal'' then parse_literal sl
      else if generic_type \<in> set [''list'', ''List''] then
        (case parse_types_list sl of Inl e \<Rightarrow> Inl e
         | Inr ts \<Rightarrow> Inr (GenericType ''list'' ts))
      else if generic_type \<in> set [''dict'', ''Dict''] then
        (case parse_types_list sl of Inl e \<Rightarrow> Inl e
         | Inr ts \<Rightarrow> Inr (GenericType ''dict'' ts))
      else if generic_type = ''Union'' then
        (case parse_types_list sl of Inl e \<Rightarrow> Inl e
         | Inr ts \<Rightarrow> Inr (UnionType ts))
      else if generic_type = ''Optional'' then
        (case parse_types_list sl of Inl e \<Rightarrow> Inl e
         | Inr ts \<Rightarrow> Inr (UnionType (ts @ [PrimitiveType ''None''])))
      else if generic_type \<in> set [''tuple'', ''Tuple''] then
        (case parse_types_list sl of Inl e \<Rightarrow> Inl e
         | Inr ts \<Rightarrow> Inr (TupleType ts))
      else Inl (UnexpectedGenericType generic_type))"
| "parse_generic_type _ sl = Inl EnsureTypeFailed"
| "parse_types_list [] = Inr []"
| "parse_types_list (Slice # rest) = Inl EnsureTypeFailed"
| "parse_types_list (Index (Name type_var) # rest) =
     (case parse_types_list rest of Inl e \<Rightarrow> Inl e
      | Inr ts \<Rightarrow> Inr (primitive_or_user_defined_type type_var # ts))"
| "parse_types_list (Index other # rest) =
     (case extract_type_py other of Inl e \<Rightarrow> Inl e
      | Inr t \<Rightarrow>
          (case parse_types_list rest of Inl e \<Rightarrow> Inl e
           | Inr ts \<Rightarrow> Inr (t # ts)))"
| "extract_union l BitOr r =
     (case extract_type_py l of Inl e \<Rightarrow> Inl e
      | Inr left \<Rightarrow>
          (case extract_type_py r of Inl e \<Rightarrow> Inl e
           | Inr right \<Rightarrow> Inr (UnionType (union_members left @ union_members right))))"
| "extract_union l _ r = Inl EnsureTypeFailed"
  by pat_completeness auto

termination
  by (relation "measure (\<lambda>x. case x of
        Inl (Inl e) \<Rightarrow> 2 * size e
      | Inl (Inr (v, sl)) \<Rightarrow> 2 * (size v + size_list size sl) + 1
      | Inr (Inl sl) \<Rightarrow> 2 * size_list size sl
      | Inr (Inr (l, operator, r)) \<Rightarrow> 2 * (size l + size r) + 1)") auto

section \<open>Properties of the field type extractor\<close>

subsection \<open>Predicates on types and annotations\<close>

text \<open>
  \<open>no_nested_union\<close>: nowhere in the type tree is a member of a \<open>UnionType\<close> itself a
  \<open>UnionType\<close>. \<open>union_valued\<close>: the annotation is one of the spellings that extract to a
  \<open>UnionType\<close> (a binary operation, \<open>Union[...]\<close>, \<open>Optional[...]\<close>, or a \<open>Literal[...]\<close>
  whose number of values is not one). \<open>plain_union_args\<close>: no argument of a \<open>Union[...]\<close>
  or \<open>Optional[...]\<close> subscript anywhere in the annotation is union-valued.
\<close>

fun is_union :: "PyType \<Rightarrow> bool" where
  "is_union (UnionType ts) = True"
| "is_union _ = False"

fun no_nested_union :: "PyType \<Rightarrow> bool" where
  "no_nested_union (UnionType ts) = list_all (\<lambda>t. \<not> is_union t \<and> no_nested_union t) ts"
| "no_nested_union (GenericType g ts) = list_all no_nested_union ts"
| "no_nested_union (TupleType ts) = list_all no_nested_union ts"
| "no_nested_union (LiteralType tp v) = (case tp of None \<Rightarrow> True | Some t \<Rightarrow> no_nested_union t)"
| "no_nested_union _ = True"


fun union_valued :: "expr \<Rightarrow> bool" where
  "union_valued (BinaryOperation l operator r) = True"
| "union_valued (Subscript (Name g) sl) =
     (g = ''Union'' \<or> g = ''Optional'' \<or> (g = ''Literal'' \<and> length sl \<noteq> 1))"
| "union_valued _ = False"


fun union_valued_slice :: "BaseSlice \<Rightarrow> bool" where
  "union_valued_slice (Index e) = union_valued e"
| "union_valued_slice Slice = False"


function (sequential)
  plain_union_args :: "expr \<Rightarrow> bool" and
  plain_union_args_list :: "BaseSlice list \<Rightarrow> bool"
where
  "plain_union_args (Subscript v sl) =
     ((v \<in> set [Name ''Union'', Name ''Optional''] \<longrightarrow> list_all (\<lambda>s. \<not> union_valued_slice s) sl)
      \<and> plain_union_args_list sl)"
| "plain_union_args (BinaryOperation l operator r) = (plain_union_args l \<and> plain_union_args r)"
| "plain_union_args _ = True"
| "plain_union_args_list [] = True"
| "plain_union_args_list (Index e # rest) = (plain_union_args e \<and> plain_union_args_list rest)"
| "plain_union_args_list (Slice # rest) = plain_union_args_list rest"
  by pat_completeness auto

termination
  by (relation "measure (\<lambda>x. case x of Inl e \<Rightarrow> size e | Inr sl \<Rightarrow> size_list size sl)") auto

text \<open>
  \<open>accepted\<close>: the annotations built from identifiers, \<open>|\<close> between accepted operands,
  \<open>Literal[...]\<close> over string literals only, and the other recognized generics over
  accepted arguments given as plain indices. \<open>claimed_shape\<close>: the outermost shape alone
  (identifier, subscript of a recognized base identifier, or binary \<open>|\<close>).
\<close>

fun string_literal_slice :: "BaseSlice \<Rightarrow> bool" where
  "string_literal_slice (Index (SimpleString v)) = True"
| "string_literal_slice _ = False"

function (sequential)
  accepted :: "expr \<Rightarrow> bool" and
  accepted_list :: "BaseSlice list \<Rightarrow> bool"
where
  "accepted (Name n) = True"
| "accepted (Subscript (Name g) sl) =
     (if g = ''Literal'' then list_all string_literal_slice sl
      else (g \<in> set [''list'', ''List'', ''dict'', ''Dict'', ''Union'', ''Optional'',
                       ''tuple'', ''Tuple'']
            \<and> accepted_list sl))"
| "accepted (BinaryOperation l BitOr r) = (accepted l \<and> accepted r)"
| "accepted _ = False"
| "accepted_list [] = True"
| "accepted_list (Index e # rest) = (accepted e \<and> accepted_list rest)"
| "accepted_list (Slice # rest) = False"
  by pat_completeness auto

termination
  by (relation "measure (\<lambda>x. case x of Inl e \<Rightarrow> size e | Inr sl \<Rightarrow> size_list size sl)") auto

fun claimed_shape :: "expr \<Rightarrow> bool" where
  "claimed_shape (Name n) = True"
| "claimed_shape (Subscript (Name g) sl) =
     (g \<in> set [''Literal'', ''list'', ''List'', ''dict'', ''Dict'', ''Union'', ''Optional'',
                ''tuple'', ''Tuple''])"
| "claimed_shape (BinaryOperation l BitOr r) = True"
| "claimed_shape _ = False"

subsection \<open>Auxiliary facts\<close>

lemma parse_types_list_Index:
  "parse_types_list (Index e # rest) =
     (case extract_type_py e of Inl err \<Rightarrow> Inl err
      | Inr t \<Rightarrow> (case parse_types_list rest of Inl err \<Rightarrow> Inl err | Inr ts \<Rightarrow> Inr (t # ts)))"
  by (cases e) simp_all


lemma literal_values_length:
  "literal_values sl = Inr vs \<Longrightarrow> length vs = length sl"
  by (induction sl arbitrary: vs rule: literal_values.induct) (auto split: sum.splits)


lemma prim_not_union: "\<not> is_union (primitive_or_user_defined_type n)"
  by (simp add: primitive_or_user_defined_type_def)


lemma parse_literal_not_union':
  "length sl = 1 \<Longrightarrow> (case parse_literal sl of Inl x \<Rightarrow> True | Inr t \<Rightarrow> \<not> is_union t)"
  by (simp add: parse_literal_def literal_values_length split: sum.split)

lemma parse_generic_not_union':
  assumes b: "\<not> union_valued (Subscript v sl)"
  shows "case parse_generic_type v sl of Inl x \<Rightarrow> True | Inr t \<Rightarrow> \<not> is_union t"
proof (cases v)
  case (Name g)
  from b Name have g: "g \<noteq> ''Union''" "g \<noteq> ''Optional''" "g = ''Literal'' \<longrightarrow> length sl = 1"
    by simp_all
  show ?thesis
  proof (cases "g = ''Literal''")
    case True
    with Name g show ?thesis by (simp add: parse_literal_not_union')
  next
    case False
    with Name g show ?thesis by (simp split: sum.split)
  qed
qed simp_all

lemma extract_not_union:
  assumes "extract_type_py e = Inr t" and "\<not> union_valued e"
  shows "\<not> is_union t"
proof (cases e)
  case (Name n)
  with assms show ?thesis by (auto simp: prim_not_union)
next
  case (Subscript v sl)
  with assms parse_generic_not_union'[of v sl] show ?thesis by simp
next
  case (BinaryOperation l operator r)
  with assms show ?thesis by simp
qed (use assms in simp_all)

lemma parse_types_list_Inr_iff:
  "parse_types_list sl = Inr ts \<longleftrightarrow>
     list_all2 (\<lambda>s t. \<exists>e. s = Index e \<and> extract_type_py e = Inr t) sl ts"
proof (induction sl arbitrary: ts)
  case Nil
  show ?case by auto
next
  case (Cons s sl)
  show ?case
  proof (cases s)
    case (Index e)
    have "parse_types_list (s # sl) = Inr ts \<longleftrightarrow>
            (\<exists>t ts'. ts = t # ts' \<and> extract_type_py e = Inr t \<and> parse_types_list sl = Inr ts')"
      by (auto simp add: Index parse_types_list_Index split: sum.splits)
    then show ?thesis
      by (simp add: Cons.IH Index list_all2_Cons1)
  next
    case Slice
    then show ?thesis by (simp add: list_all2_Cons1)
  qed
qed

lemma parse_generic_type_InrE:
  assumes a: "parse_generic_type v sl = Inr t"
  obtains
    (Literal) "v = Name ''Literal''" "parse_literal sl = Inr t"
  | (List) g ts where "v = Name g" "g \<in> set [''list'', ''List'']"
      "parse_types_list sl = Inr ts" "t = GenericType ''list'' ts"
  | (Dict) g ts where "v = Name g" "g \<in> set [''dict'', ''Dict'']"
      "parse_types_list sl = Inr ts" "t = GenericType ''dict'' ts"
  | (Union) ts where "v = Name ''Union''"
      "parse_types_list sl = Inr ts" "t = UnionType ts"
  | (Optional) ts where "v = Name ''Optional''"
      "parse_types_list sl = Inr ts" "t = UnionType (ts @ [PrimitiveType ''None''])"
  | (Tuple) g ts where "v = Name g" "g \<in> set [''tuple'', ''Tuple'']"
      "parse_types_list sl = Inr ts" "t = TupleType ts"
proof (cases v)
  case (Name g)
  show ?thesis
  proof (cases "g = ''Literal''")
    case True
    with a Name show ?thesis by (intro Literal) simp_all
  next
    case nlit: False
    show ?thesis
    proof (cases "g \<in> set [''list'', ''List'']")
      case True
      with a Name nlit obtain ts where "parse_types_list sl = Inr ts" "t = GenericType ''list'' ts"
        by (cases "parse_types_list sl") simp_all
      with Name True show ?thesis by (intro List)
    next
      case nl: False
      show ?thesis
      proof (cases "g \<in> set [''dict'', ''Dict'']")
        case True
        with a Name nlit nl obtain ts where "parse_types_list sl = Inr ts" "t = GenericType ''dict'' ts"
          by (cases "parse_types_list sl") simp_all
        with Name True show ?thesis by (intro Dict)
      next
        case nd: False
        show ?thesis
        proof (cases "g = ''Union''")
          case True
          with a Name obtain ts where "parse_types_list sl = Inr ts" "t = UnionType ts"
            by (cases "parse_types_list sl") simp_all
          with Name True show ?thesis by (intro Union) simp_all
        next
          case nu: False
          show ?thesis
          proof (cases "g = ''Optional''")
            case True
            with a Name obtain ts where "parse_types_list sl = Inr ts"
              "t = UnionType (ts @ [PrimitiveType ''None''])"
              by (cases "parse_types_list sl") simp_all
            with Name True show ?thesis by (intro Optional) simp_all
          next
            case no: False
            show ?thesis
            proof (cases "g \<in> set [''tuple'', ''Tuple'']")
              case True
              with a Name nlit nl nd nu no obtain ts where "parse_types_list sl = Inr ts" "t = TupleType ts"
                by (cases "parse_types_list sl") simp_all
              with Name True show ?thesis by (intro Tuple)
            next
              case False
              with a Name nlit nl nd nu no show ?thesis by simp
            qed
          qed
        qed
      qed
    qed
  qed
qed (use a in simp_all)

lemma union_members_flat:
  "no_nested_union t \<Longrightarrow> list_all (\<lambda>m. \<not> is_union m \<and> no_nested_union m) (union_members t)"
  by (cases t) simp_all

lemma parse_literal_flat: "parse_literal sl = Inr t \<Longrightarrow> no_nested_union t"
  by (auto simp: parse_literal_def list_all_iff split: sum.splits if_splits)

lemma types_list_not_union:
  assumes "list_all2 (\<lambda>s t. \<exists>e. s = Index e \<and> extract_type_py e = Inr t) sl ts"
    and "list_all (\<lambda>s. \<not> union_valued_slice s) sl"
  shows "list_all (\<lambda>t. \<not> is_union t) ts"
  using assms
  by (induction rule: list_all2_induct) (auto dest: extract_not_union)

lemma types_list_flat:
  assumes "list_all2 (\<lambda>s t. \<exists>e. s = Index e \<and> extract_type_py e = Inr t) sl ts"
    and "\<forall>e t. Index e \<in> set sl \<longrightarrow> plain_union_args e \<longrightarrow> extract_type_py e = Inr t
           \<longrightarrow> no_nested_union t"
    and "plain_union_args_list sl"
  shows "list_all no_nested_union ts"
  using assms
proof (induction rule: list_all2_induct)
  case Nil
  show ?case by simp
next
  case (Cons s sl t ts)
  from Cons.hyps(1) obtain e where e: "s = Index e" "extract_type_py e = Inr t" by blast
  from Cons.prems(2) e have p: "plain_union_args e" "plain_union_args_list sl" by simp_all
  from Cons.prems(1) e p have "no_nested_union t" by simp
  moreover from Cons.IH Cons.prems(1) p have "list_all no_nested_union ts" by simp
  ultimately show ?case by simp
qed

lemma extract_type_flat_all:
  "\<forall>t. plain_union_args e \<longrightarrow> extract_type_py e = Inr t \<longrightarrow> no_nested_union t"
proof (rule expr.induct[where
      ?P1.0 = "\<lambda>e. \<forall>t. plain_union_args e \<longrightarrow> extract_type_py e = Inr t \<longrightarrow> no_nested_union t" and
      ?P2.0 = "\<lambda>s. \<forall>e t. s = Index e \<longrightarrow> plain_union_args e
        \<longrightarrow> extract_type_py e = Inr t \<longrightarrow> no_nested_union t"])
  fix n
  show "\<forall>t. plain_union_args (Name n) \<longrightarrow> extract_type_py (Name n) = Inr t \<longrightarrow> no_nested_union t"
    by (auto simp: primitive_or_user_defined_type_def)
next
  fix v sl
  assume IH: "\<And>s. s \<in> set sl \<Longrightarrow> \<forall>e t. s = Index e \<longrightarrow> plain_union_args e
        \<longrightarrow> extract_type_py e = Inr t \<longrightarrow> no_nested_union t"
  show "\<forall>t. plain_union_args (Subscript v sl) \<longrightarrow> extract_type_py (Subscript v sl) = Inr t
          \<longrightarrow> no_nested_union t"
  proof (intro allI impI)
    fix t
    assume pl0: "plain_union_args (Subscript v sl)" and ex: "extract_type_py (Subscript v sl) = Inr t"
    from ex have pg: "parse_generic_type v sl = Inr t" by simp
    from pl0 have pl: "plain_union_args_list sl" by simp
    from IH have IH': "\<forall>e t. Index e \<in> set sl \<longrightarrow> plain_union_args e \<longrightarrow>
        extract_type_py e = Inr t \<longrightarrow> no_nested_union t" by blast
    have flat: "list_all no_nested_union ts" if "parse_types_list sl = Inr ts" for ts
      using that IH' pl
      by (intro types_list_flat[of sl ts]) (simp_all add: parse_types_list_Inr_iff)
    have nu: "list_all (\<lambda>t. \<not> is_union t) ts"
      if "parse_types_list sl = Inr ts" "v \<in> set [Name ''Union'', Name ''Optional'']" for ts
      using that pl0
      by (intro types_list_not_union[of sl ts]) (simp_all add: parse_types_list_Inr_iff)
    from pg show "no_nested_union t"
    proof (cases rule: parse_generic_type_InrE)
      case Literal
      then show ?thesis by (simp add: parse_literal_flat)
    next
      case (List g ts)
      with flat show ?thesis by simp
    next
      case (Dict g ts)
      with flat show ?thesis by simp
    next
      case (Union ts)
      with flat[of ts] nu[of ts] show ?thesis by (simp add: list_all_iff)
    next
      case (Optional ts)
      with flat[of ts] nu[of ts] show ?thesis by (simp add: list_all_iff)
    next
      case (Tuple g ts)
      with flat show ?thesis by simp
    qed
  qed
next
  fix l operator r
  assume IHl: "\<forall>t. plain_union_args l \<longrightarrow> extract_type_py l = Inr t \<longrightarrow> no_nested_union t"
    and IHr: "\<forall>t. plain_union_args r \<longrightarrow> extract_type_py r = Inr t \<longrightarrow> no_nested_union t"
  show "\<forall>t. plain_union_args (BinaryOperation l operator r) \<longrightarrow>
          extract_type_py (BinaryOperation l operator r) = Inr t \<longrightarrow> no_nested_union t"
  proof (intro allI impI)
    fix t
    assume pl: "plain_union_args (BinaryOperation l operator r)"
      and ex: "extract_type_py (BinaryOperation l operator r) = Inr t"
    from ex obtain left right where
      lr: "extract_type_py l = Inr left" "extract_type_py r = Inr right"
        "t = UnionType (union_members left @ union_members right)"
      by (cases operator) (auto split: sum.splits)
    from pl have "plain_union_args l" "plain_union_args r" by simp_all
    with IHl IHr lr have "no_nested_union left" "no_nested_union right" by simp_all
    with lr(3) show "no_nested_union t" by (simp add: union_members_flat)
  qed
qed simp_all

lemma union_members_single: "\<not> is_union t \<Longrightarrow> union_members t = [t]"
  by (cases t) simp_all

lemma prim_None: "primitive_or_user_defined_type ''None'' = PrimitiveType ''None''"
  by (simp add: primitive_or_user_defined_type_def)

lemma literal_values_Inr_iff:
  "(\<exists>vs. literal_values sl = Inr vs) = list_all string_literal_slice sl"
  by (induction sl rule: literal_values.induct) (auto split: sum.splits)

lemma parse_literal_Inr_iff:
  "(\<exists>t. parse_literal sl = Inr t) = list_all string_literal_slice sl"
  using literal_values_Inr_iff[of sl]
  by (cases "literal_values sl") (auto simp: parse_literal_def)

lemma parse_types_list_accepted:
  assumes "\<forall>e. Index e \<in> set sl \<longrightarrow> ((\<exists>t. extract_type_py e = Inr t) = accepted e)"
  shows "(\<exists>ts. parse_types_list sl = Inr ts) = accepted_list sl"
  using assms
proof (induction sl)
  case Nil
  show ?case by simp
next
  case (Cons s sl)
  show ?case
  proof (cases s)
    case (Index e)
    from Cons.prems Index have e: "(\<exists>t. extract_type_py e = Inr t) = accepted e" by simp
    from Cons have r: "(\<exists>ts. parse_types_list sl = Inr ts) = accepted_list sl" by simp
    have "(\<exists>ts. parse_types_list (Index e # sl) = Inr ts)
          = ((\<exists>t. extract_type_py e = Inr t) \<and> (\<exists>ts. parse_types_list sl = Inr ts))"
      by (auto simp: parse_types_list_Index split: sum.splits)
    with e r Index show ?thesis by simp
  next
    case Slice
    then show ?thesis by simp
  qed
qed

lemma parse_generic_type_recognized:
  assumes "g \<in> set [''list'', ''List'', ''dict'', ''Dict'', ''Union'', ''Optional'',
                       ''tuple'', ''Tuple'']"
  shows "(\<exists>t. parse_generic_type (Name g) sl = Inr t) = (\<exists>ts. parse_types_list sl = Inr ts)"
  using assms
  apply simp
  apply (elim disjE)
         apply (simp_all split: sum.split)
  done

lemma extract_union_Inr_iff:
  "(\<exists>t. extract_union l BitOr r = Inr t)
     = ((\<exists>a. extract_type_py l = Inr a) \<and> (\<exists>b. extract_type_py r = Inr b))"
  by (auto split: sum.splits)

lemma extract_accepted_iff: "(\<exists>t. extract_type_py e = Inr t) = accepted e"
proof (rule expr.induct[where
      ?P1.0 = "\<lambda>e. (\<exists>t. extract_type_py e = Inr t) = accepted e" and
      ?P2.0 = "\<lambda>s. \<forall>e. s = Index e \<longrightarrow> ((\<exists>t. extract_type_py e = Inr t) = accepted e)"])
  fix v sl
  assume IH: "\<And>s. s \<in> set sl \<Longrightarrow>
     \<forall>e. s = Index e \<longrightarrow> ((\<exists>t. extract_type_py e = Inr t) = accepted e)"
  then have tl: "(\<exists>ts. parse_types_list sl = Inr ts) = accepted_list sl"
    by (intro parse_types_list_accepted) blast
  show "(\<exists>t. extract_type_py (Subscript v sl) = Inr t) = accepted (Subscript v sl)"
  proof (cases v)
    case (Name g)
    show ?thesis
    proof (cases "g = ''Literal''")
      case True
      with Name show ?thesis by (simp add: parse_literal_Inr_iff)
    next
      case nlit: False
      show ?thesis
      proof (cases "g \<in> set [''list'', ''List'', ''dict'', ''Dict'', ''Union'', ''Optional'',
                       ''tuple'', ''Tuple'']")
        case True
        from parse_generic_type_recognized[OF True, of sl] tl Name nlit True
        show ?thesis by simp
      next
        case False
        with Name nlit show ?thesis by simp
      qed
    qed
  qed simp_all
next
  fix l operator r
  assume "(\<exists>t. extract_type_py l = Inr t) = accepted l"
    and "(\<exists>t. extract_type_py r = Inr t) = accepted r"
  then show "(\<exists>t. extract_type_py (BinaryOperation l operator r) = Inr t)
      = accepted (BinaryOperation l operator r)"
    using extract_union_Inr_iff[of l r] by (cases operator) simp_all
qed simp_all


subsection \<open>Nested unions\<close>

text \<open>
  C3, as stated, fails: \<open>Optional[int | str]\<close> extracts to a union whose first member is
  itself a union, because \<open>_parse_generic_type\<close> keeps each argument of \<open>Optional[...]\<close> and
  \<open>Union[...]\<close> as extracted and only \<open>_extract_union\<close> splices.
\<close>

theorem nested_union_counterexample:
  "extract_type_py (Subscript (Name ''Optional'')
        [Index (BinaryOperation (Name ''int'') BitOr (Name ''str''))])
      = Inr (UnionType [UnionType [PrimitiveType ''int'', PrimitiveType ''str''],
                        PrimitiveType ''None''])
   \<and> \<not> no_nested_union (UnionType [UnionType [PrimitiveType ''int'', PrimitiveType ''str''],
                        PrimitiveType ''None''])"
  by (simp add: primitive_or_user_defined_type_def)

text \<open>
  C3, amended: for every annotation in which no argument of a \<open>Union[...]\<close> or
  \<open>Optional[...]\<close> subscript is itself union-valued, whenever the extractor returns a type,
  no member of any \<open>UnionType\<close> in that type is itself a \<open>UnionType\<close>; in particular
  chains of \<open>|\<close> and multi-value literals come out flat.
\<close>

theorem no_nested_union_for_plain_args:
  "plain_union_args e \<Longrightarrow> extract_type_py e = Inr t \<Longrightarrow> no_nested_union t"
  using extract_type_flat_all[of e] by blast

theorem no_nested_union_for_plain_args_witness:
  "plain_union_args
     (BinaryOperation (BinaryOperation (Name ''int'') BitOr (Name ''str'')) BitOr (Name ''None''))
   \<and> extract_type_py
     (BinaryOperation (BinaryOperation (Name ''int'') BitOr (Name ''str'')) BitOr (Name ''None''))
     = Inr (UnionType [PrimitiveType ''int'', PrimitiveType ''str'', PrimitiveType ''None''])
   \<and> no_nested_union
     (UnionType [PrimitiveType ''int'', PrimitiveType ''str'', PrimitiveType ''None''])"
proof -
  have a: "plain_union_args
     (BinaryOperation (BinaryOperation (Name ''int'') BitOr (Name ''str'')) BitOr (Name ''None''))"
    by simp
  have b: "extract_type_py
     (BinaryOperation (BinaryOperation (Name ''int'') BitOr (Name ''str'')) BitOr (Name ''None''))
     = Inr (UnionType [PrimitiveType ''int'', PrimitiveType ''str'', PrimitiveType ''None''])"
    by (simp add: primitive_or_user_defined_type_def)
  from no_nested_union_for_plain_args[OF a b] a b show ?thesis by simp
qed

subsection \<open>The spellings of an optional type\<close>

text \<open>
  C4, as stated, fails twice. For a type \<open>T\<close> that itself extracts to a union, here
  \<open>T = int | str\<close>, \<open>Optional[T]\<close> keeps the union of \<open>T\<close> as one member while \<open>T | None\<close>
  splices its members. And the members are an ordered list in the order of the source:
  \<open>Union[None, int]\<close> and \<open>None | int\<close> have the none-primitive first and are not the
  \<open>UnionType\<close> of \<open>Union[int, None]\<close>.
\<close>

theorem optional_spellings_differ:
  "extract_type_py (BinaryOperation (Name ''int'') BitOr (Name ''str''))
      = Inr (UnionType [PrimitiveType ''int'', PrimitiveType ''str''])
   \<and> extract_type_py (Subscript (Name ''Optional'')
        [Index (BinaryOperation (Name ''int'') BitOr (Name ''str''))])
      = Inr (UnionType [UnionType [PrimitiveType ''int'', PrimitiveType ''str''],
                        PrimitiveType ''None''])
   \<and> extract_type_py (BinaryOperation (BinaryOperation (Name ''int'') BitOr (Name ''str''))
        BitOr (Name ''None''))
      = Inr (UnionType [PrimitiveType ''int'', PrimitiveType ''str'', PrimitiveType ''None''])
   \<and> extract_type_py (Subscript (Name ''Optional'')
        [Index (BinaryOperation (Name ''int'') BitOr (Name ''str''))])
      \<noteq> extract_type_py (BinaryOperation (BinaryOperation (Name ''int'') BitOr (Name ''str''))
        BitOr (Name ''None''))
   \<and> extract_type_py (Subscript (Name ''Union'') [Index (Name ''int''), Index (Name ''None'')])
      = Inr (UnionType [PrimitiveType ''int'', PrimitiveType ''None''])
   \<and> extract_type_py (Subscript (Name ''Union'') [Index (Name ''None''), Index (Name ''int'')])
      = Inr (UnionType [PrimitiveType ''None'', PrimitiveType ''int''])
   \<and> extract_type_py (BinaryOperation (Name ''None'') BitOr (Name ''int''))
      = Inr (UnionType [PrimitiveType ''None'', PrimitiveType ''int''])
   \<and> extract_type_py (Subscript (Name ''Union'') [Index (Name ''None''), Index (Name ''int'')])
      \<noteq> extract_type_py (Subscript (Name ''Union'') [Index (Name ''int''), Index (Name ''None'')])"
  by (simp add: primitive_or_user_defined_type_def)

text \<open>
  C4, amended: for every type \<open>T\<close> that the extractor accepts, \<open>Optional[T]\<close> and
  \<open>Union[T, None]\<close> extract to the identical \<open>UnionType\<close> whose members are exactly
  \<open>T\<close>'s extracted type followed by the none-primitive, and \<open>T | None\<close> extracts to that
  same \<open>UnionType\<close> whenever \<open>T\<close>'s extracted type is not itself a \<open>UnionType\<close>; when it
  is, \<open>T | None\<close> has the members of that union followed by the none-primitive. The
  members keep the order of the source expression: \<open>Union[None, T]\<close> and \<open>None | T\<close> have
  the none-primitive first, followed by \<open>T\<close>'s extracted type (for \<open>None | T\<close> and a
  union-valued \<open>T\<close>, by its members).
\<close>

theorem optional_spellings_agree:
  assumes "extract_type_py T = Inr t"
  shows "extract_type_py (Subscript (Name ''Optional'') [Index T])
           = Inr (UnionType [t, PrimitiveType ''None''])
       \<and> extract_type_py (Subscript (Name ''Union'') [Index T, Index (Name ''None'')])
           = Inr (UnionType [t, PrimitiveType ''None''])
       \<and> extract_type_py (Subscript (Name ''Union'') [Index (Name ''None''), Index T])
           = Inr (UnionType [PrimitiveType ''None'', t])
       \<and> extract_type_py (BinaryOperation T BitOr (Name ''None''))
           = Inr (UnionType (union_members t @ [PrimitiveType ''None'']))
       \<and> extract_type_py (BinaryOperation (Name ''None'') BitOr T)
           = Inr (UnionType (PrimitiveType ''None'' # union_members t))
       \<and> (\<not> is_union t \<longrightarrow>
            extract_type_py (BinaryOperation T BitOr (Name ''None''))
              = Inr (UnionType [t, PrimitiveType ''None''])
          \<and> extract_type_py (BinaryOperation (Name ''None'') BitOr T)
              = Inr (UnionType [PrimitiveType ''None'', t]))"
  using assms
  by (simp add: parse_types_list_Index union_members_single prim_None)

theorem optional_spellings_agree_witness:
  "extract_type_py (Name ''int'') = Inr (PrimitiveType ''int'')
   \<and> \<not> is_union (PrimitiveType ''int'')
   \<and> extract_type_py (Subscript (Name ''Optional'') [Index (Name ''int'')])
           = Inr (UnionType [PrimitiveType ''int'', PrimitiveType ''None''])
   \<and> extract_type_py (Subscript (Name ''Union'') [Index (Name ''int''), Index (Name ''None'')])
           = Inr (UnionType [PrimitiveType ''int'', PrimitiveType ''None''])
   \<and> extract_type_py (BinaryOperation (Name ''int'') BitOr (Name ''None''))
           = Inr (UnionType [PrimitiveType ''int'', PrimitiveType ''None''])
   \<and> extract_type_py (Subscript (Name ''Union'') [Index (Name ''None''), Index (Name ''int'')])
           = Inr (UnionType [PrimitiveType ''None'', PrimitiveType ''int''])
   \<and> extract_type_py (BinaryOperation (Name ''None'') BitOr (Name ''int''))
           = Inr (UnionType [PrimitiveType ''None'', PrimitiveType ''int''])
   \<and> extract_type_py (BinaryOperation (Name ''int'') BitOr (Name ''str''))
           = Inr (UnionType [PrimitiveType ''int'', PrimitiveType ''str''])
   \<and> extract_type_py (Subscript (Name ''Optional'')
          [Index (BinaryOperation (Name ''int'') BitOr (Name ''str''))])
           = Inr (UnionType [UnionType [PrimitiveType ''int'', PrimitiveType ''str''],
                             PrimitiveType ''None''])
   \<and> extract_type_py (Subscript (Name ''Union'')
          [Index (BinaryOperation (Name ''int'') BitOr (Name ''str'')), Index (Name ''None'')])
           = Inr (UnionType [UnionType [PrimitiveType ''int'', PrimitiveType ''str''],
                             PrimitiveType ''None''])"
proof -
  have a: "extract_type_py (Name ''int'') = Inr (PrimitiveType ''int'')"
    by (simp add: primitive_or_user_defined_type_def)
  have b: "\<not> is_union (PrimitiveType ''int'')" by simp
  have c: "extract_type_py (BinaryOperation (Name ''int'') BitOr (Name ''str''))
           = Inr (UnionType [PrimitiveType ''int'', PrimitiveType ''str''])"
    by (simp add: primitive_or_user_defined_type_def)
  from optional_spellings_agree[OF a] optional_spellings_agree[OF c] a b c
  show ?thesis by simp
qed


subsection \<open>Which annotations the extractor accepts\<close>

text \<open>
  C5, as stated, fails: \<open>Literal[int]\<close> is a subscripted generic with a recognized base
  identifier, and the extractor raises instead of returning a type (\<open>_parse_literal\<close> insists
  on string literals).
\<close>

theorem literal_of_name_rejected:
  "claimed_shape (Subscript (Name ''Literal'') [Index (Name ''int'')])
   \<and> extract_type_py (Subscript (Name ''Literal'') [Index (Name ''int'')]) = Inl EnsureTypeFailed"
  by (simp add: parse_literal_def)

text \<open>
  C5, amended: the extractor returns a type exactly for the accepted annotations
  (identifiers; \<open>Literal[...]\<close> over string literals; \<open>list\<close>/\<open>List\<close>, \<open>dict\<close>/\<open>Dict\<close>,
  \<open>Union\<close>, \<open>Optional\<close>, \<open>tuple\<close>/\<open>Tuple\<close> over accepted arguments; \<open>|\<close> between accepted
  operands); on every other expression, among them every subscript with another base,
  it fails with an error instead of returning a value.
\<close>

theorem extract_type_result:
  "(accepted e \<longrightarrow> (\<exists>t. extract_type_py e = Inr t))
   \<and> (\<not> accepted e \<longrightarrow> (\<exists>err. extract_type_py e = Inl err))"
  using extract_accepted_iff[of e] by (cases "extract_type_py e") auto

theorem extract_type_result_witness:
  "accepted (Subscript (Name ''list'') [Index (Name ''int'')])
   \<and> (\<exists>t. extract_type_py (Subscript (Name ''list'') [Index (Name ''int'')]) = Inr t)
   \<and> \<not> accepted (Subscript (Name ''Literal'') [Index (Name ''int'')])
   \<and> (\<exists>err. extract_type_py (Subscript (Name ''Literal'') [Index (Name ''int'')]) = Inl err)"
  using extract_type_result[of "Subscript (Name ''list'') [Index (Name ''int'')]"]
    extract_type_result[of "Subscript (Name ''Literal'') [Index (Name ''int'')]"]
  by simp

section \<open>Default values\<close>

text \<open>
  \<open>_parse_value\<close>. The logger is a side channel: the model returns the warnings next to the
  value. \<open>CannotInferOrigin\<close> is the warning of the dependency loop.
\<close>

datatype diagnostic = UnsupportedValueType expr | CannotInferOrigin string string

fun parse_value :: "expr \<Rightarrow> PyValue \<times> diagnostic list" where
  "parse_value (SimpleString v) = (PyString (strip_dquotes v), [])"
| "parse_value (Name n) =
     (if n = ''None'' then (PyNone, []) else (PyNone, [UnsupportedValueType (Name n)]))"
| "parse_value Dict = (PyDict, [])"
| "parse_value other = (PyNone, [UnsupportedValueType other])"

text \<open>
  What \<open>_parse_value\<close> does on each shape: it always returns, a mapping literal gives the
  placeholder, \<open>None\<close> gives the null value silently, a string literal loses its double-quote
  characters and nothing else, and every other expression gives the null value with one
  warning.
\<close>

lemma parse_value_cases:
  "parse_value (SimpleString v) = (PyString (filter (\<lambda>c. c \<noteq> CHR 0x22) v), [])"
  "parse_value (Name ''None'') = (PyNone, [])"
  "parse_value Dict = (PyDict, [])"
  "n \<noteq> ''None'' \<Longrightarrow> parse_value (Name n) = (PyNone, [UnsupportedValueType (Name n)])"
  "parse_value (Subscript v' sl) = (PyNone, [UnsupportedValueType (Subscript v' sl)])"
  "parse_value (BinaryOperation l operator r)
     = (PyNone, [UnsupportedValueType (BinaryOperation l operator r)])"
  "parse_value (OtherExpression k) = (PyNone, [UnsupportedValueType (OtherExpression k)])"
  by (simp_all add: strip_dquotes_def)

text \<open>
  C7: the claim says that a string literal yields its value with the quote characters
  stripped. The code removes double-quote characters only, so the single-quoted literal
  \<open>'a'\<close> keeps both of its quote characters in the default value.
\<close>

theorem parse_value_single_quoted:
  "parse_value (SimpleString [CHR 0x27, CHR ''a'', CHR 0x27])
     = (PyString [CHR 0x27, CHR ''a'', CHR 0x27], [])"
  by (simp add: strip_dquotes_def)

section \<open>Dependencies of a class\<close>

fun get_user_defined_types :: "PyType \<Rightarrow> string list" where
  "get_user_defined_types (UserDefinedType n) = [n]"
| "get_user_defined_types (UnionType types) = concat (map get_user_defined_types types)"
| "get_user_defined_types (LiteralType tp v) =
     (case tp of None \<Rightarrow> [] | Some type' \<Rightarrow> get_user_defined_types type')"
| "get_user_defined_types (GenericType g args) = concat (map get_user_defined_types args)"
| "get_user_defined_types _ = []"

text \<open>\<open>_ParseModule._class_deps\<close>.\<close>

definition class_deps_of :: "ClassDecl \<Rightarrow> string list" where
  "class_deps_of cls =
     filter (\<lambda>c. c \<noteq> ''BaseModel'') (base_classes cls)
     @ concat (map (\<lambda>f. get_user_defined_types (field_type f)) (class_fields cls))"

text \<open>
  The specification's words: a user-defined name is reachable in a type by recursing
  through union members, literal-wrapped types and generic type arguments, and through
  nothing else.
\<close>

inductive reachable_user_defined :: "PyType \<Rightarrow> string \<Rightarrow> bool" where
  here: "reachable_user_defined (UserDefinedType n) n"
| union_member: "t \<in> set types \<Longrightarrow> reachable_user_defined t n
     \<Longrightarrow> reachable_user_defined (UnionType types) n"
| literal_wrapped: "reachable_user_defined t n \<Longrightarrow> reachable_user_defined (LiteralType (Some t) v) n"
| generic_argument: "t \<in> set args \<Longrightarrow> reachable_user_defined t n
     \<Longrightarrow> reachable_user_defined (GenericType g args) n"

lemma reachable_imp_mem:
  "reachable_user_defined t n \<Longrightarrow> n \<in> set (get_user_defined_types t)"
  by (induction rule: reachable_user_defined.induct) auto

lemma mem_imp_reachable:
  "n \<in> set (get_user_defined_types t) \<Longrightarrow> reachable_user_defined t n"
proof (induction t)
  case (UnionType ts)
  then show ?case by (auto intro: reachable_user_defined.intros)
next
  case (GenericType g ts)
  then show ?case by (auto intro: reachable_user_defined.intros)
next
  case (LiteralType tp v)
  then show ?case by (cases tp) (auto intro: reachable_user_defined.intros)
next
  case (UserDefinedType x)
  then show ?case by (auto intro: reachable_user_defined.intros)
qed simp_all

lemma not_reachable_tuple: "\<not> reachable_user_defined (TupleType ts) n"
  by (auto elim: reachable_user_defined.cases)

text \<open>
  C8: the dependency set of a class is the set of its base-class names other than
  \<open>BaseModel\<close>, united with the user-defined names reachable in the types of its fields
  through union members, literal-wrapped types and generic type arguments; a tuple type
  contributes nothing.
\<close>

theorem class_deps_of_set:
  "set (class_deps_of cls) =
     {b. b \<in> set (base_classes cls) \<and> b \<noteq> ''BaseModel''}
     \<union> {n. \<exists>f \<in> set (class_fields cls). reachable_user_defined (field_type f) n}
   \<and> get_user_defined_types (TupleType ts) = []"
  using reachable_imp_mem mem_imp_reachable
  by (fastforce simp: class_deps_of_def)

theorem class_deps_of_set_witness:
  "''Foo'' \<in> set (class_deps_of
     \<lparr>name = ''M'', base_classes = [''BaseModel''],
      class_fields =
        [\<lparr>field_name = ''a'', field_type = PrimitiveType ''str'',
          default_value = None, field_comment = None\<rparr>,
         \<lparr>field_name = ''c'',
          field_type = GenericType ''dict'' [PrimitiveType ''str'', UserDefinedType ''Foo''],
          default_value = None, field_comment = None\<rparr>,
         \<lparr>field_name = ''t'', field_type = TupleType [UserDefinedType ''Bar''],
          default_value = None, field_comment = None\<rparr>],
      comment = None\<rparr>)
   \<and> ''Bar'' \<notin> set (class_deps_of
     \<lparr>name = ''M'', base_classes = [''BaseModel''],
      class_fields =
        [\<lparr>field_name = ''a'', field_type = PrimitiveType ''str'',
          default_value = None, field_comment = None\<rparr>,
         \<lparr>field_name = ''c'',
          field_type = GenericType ''dict'' [PrimitiveType ''str'', UserDefinedType ''Foo''],
          default_value = None, field_comment = None\<rparr>,
         \<lparr>field_name = ''t'', field_type = TupleType [UserDefinedType ''Bar''],
          default_value = None, field_comment = None\<rparr>],
      comment = None\<rparr>)"
proof -
  let ?M = "\<lparr>name = ''M'', base_classes = [''BaseModel''],
      class_fields =
        [\<lparr>field_name = ''a'', field_type = PrimitiveType ''str'',
          default_value = None, field_comment = None\<rparr>,
         \<lparr>field_name = ''c'',
          field_type = GenericType ''dict'' [PrimitiveType ''str'', UserDefinedType ''Foo''],
          default_value = None, field_comment = None\<rparr>,
         \<lparr>field_name = ''t'', field_type = TupleType [UserDefinedType ''Bar''],
          default_value = None, field_comment = None\<rparr>],
      comment = None\<rparr>"
  have r: "reachable_user_defined
      (GenericType ''dict'' [PrimitiveType ''str'', UserDefinedType ''Foo'']) ''Foo''"
    by (rule reachable_user_defined.generic_argument[of "UserDefinedType ''Foo''"])
      (simp_all add: reachable_user_defined.here)
  then have m: "''Foo'' \<in> {n. \<exists>f \<in> set (class_fields ?M). reachable_user_defined (field_type f) n}"
    by simp
  have eq: "set (class_deps_of ?M) =
     {b. b \<in> set (base_classes ?M) \<and> b \<noteq> ''BaseModel''}
     \<union> {n. \<exists>f \<in> set (class_fields ?M). reachable_user_defined (field_type f) n}"
    using class_deps_of_set[of ?M "[]"] by (rule conjunct1)
  have "''Foo'' \<in> set (class_deps_of ?M)"
    unfolding eq using m by (rule UnI2)
  moreover have "''Bar'' \<notin> set (class_deps_of ?M)"
    by (simp add: class_deps_of_def)
  ultimately show ?thesis by (rule conjI)
qed

section \<open>The shared dependency graph\<close>

text \<open>
  \<open>networkx.DiGraph\<close> keeps its nodes, and the successors of each node, in insertion
  order: the graph is the list of its nodes, each with the list of its successors.
  \<open>add_node\<close> leaves a known node where it is; \<open>add_edge\<close> adds both end points when they
  are new, the source first, and leaves a known edge where it is.
\<close>

type_synonym DiGraph = "(string \<times> string list) list"

definition add_node :: "DiGraph \<Rightarrow> string \<Rightarrow> DiGraph" where
  "add_node g n = (if n \<in> fst ` set g then g else g @ [(n, [])])"

definition add_edge :: "DiGraph \<Rightarrow> string \<Rightarrow> string \<Rightarrow> DiGraph" where
  "add_edge g u v =
     map (\<lambda>(n, succs). if n = u \<and> v \<notin> set succs then (n, succs @ [v]) else (n, succs))
       (add_node (add_node g u) v)"

section \<open>The module visitor\<close>

text \<open>
  The libcst statements the visitors read. \<open>AnnAssign\<close> is an annotated assignment with
  its optional right-hand side. A small statement is an annotated assignment, an
  expression statement, given by the source texts of the \<open>SimpleString\<close> nodes inside its
  expression in traversal order (a doc string has one), or any other small statement. A
  statement is a line or a one-line suite of small statements, a class definition with
  its name, base expressions and body, a function definition with its body, or any other
  compound statement with the statements of its blocks in traversal order. \<open>ClassDef\<close> is
  the class node the module visitor stores. \<open>ParseModule\<close> is the state of
  \<open>_ParseModule\<close>; the Python set \<open>_external_models\<close> is kept as the list of its
  elements in the order the loops visit them, and \<open>package\<close> is \<open>__package__\<close> of the
  module being parsed.
\<close>

record AnnAssign =
  target :: expr
  annotation :: expr
  ann_value :: "expr option"

datatype small_stmt =
    AnnAssignStmt AnnAssign
  | Expr "string list"
  | OtherSmallStatement

datatype stmt =
    SimpleStatementLine "small_stmt list"
  | SimpleStatementSuite "small_stmt list"
  | ClassDefStmt string "expr list" "stmt list"
  | FunctionDef "stmt list"
  | CompoundStatement "stmt list"

record ClassDef =
  class_name :: string
  bases :: "expr list"
  body :: "stmt list"

record ParseModule =
  parse_only_models :: "string list"
  model_graph :: DiGraph
  package :: "string option"
  pydantic_classes :: "string \<rightharpoonup> ClassDecl"
  classes :: "string \<rightharpoonup> ClassDecl"
  class_nodes :: "string \<rightharpoonup> ClassDef"
  alias_nodes :: "string \<rightharpoonup> AnnAssign"
  external_model_names :: "string list"
  import_table :: "string \<rightharpoonup> string"

text \<open>
  \<open>_ParseImportFrom\<close>: \<open>imports()\<close> maps every imported name to the dots of the relative
  import followed by the dotted module path; \<open>_ParseModule.visit_ImportFrom\<close> merges the
  result into the table, later entries winning.
\<close>

fun join_dots :: "string list \<Rightarrow> string" where
  "join_dots [] = []"
| "join_dots [x] = x"
| "join_dots (x # xs) = x @ ''.'' @ join_dots xs"

definition import_from_imports :: "nat \<Rightarrow> string list \<Rightarrow> string list \<Rightarrow> (string \<rightharpoonup> string)" where
  "import_from_imports relative from' imported =
     map_of (map (\<lambda>imp. (imp, replicate relative CHR ''.'' @ join_dots from')) imported)"

definition visit_ImportFrom :: "ParseModule \<Rightarrow> nat \<Rightarrow> string list \<Rightarrow> string list \<Rightarrow> ParseModule" where
  "visit_ImportFrom st relative from' imported =
     st\<lparr>import_table := import_table st ++ import_from_imports relative from' imported\<rparr>"

section \<open>Class declarations and type aliases\<close>

text \<open>
  \<open>_ParseClassDecl\<close> is a visitor with two attributes, the declaration being built and
  the number of annotated assignments seen so far; the warnings of \<open>_parse_value\<close> are
  collected next to them. \<open>visit_ClassDef\<close> starts a new declaration from the name and
  the bases that are plain names, and does so for every class definition the traversal
  meets, also a nested one. \<open>visit_AnnAssign\<close> appends a field; a target that is not a
  name, or an annotation the extractor rejects, aborts the run. \<open>visit_SimpleString\<close>
  stores the text without its triple quotes as the comment of the class when no annotated
  assignment has been seen, and otherwise as the comment of the field at the position of
  the last one seen.
\<close>

record ParseClassDecl =
  class_decl :: ClassDecl
  last_field_nr :: nat
  warnings :: "diagnostic list"

fun name_values :: "expr list \<Rightarrow> string list" where
  "name_values [] = []"
| "name_values (Name n # bs) = n # name_values bs"
| "name_values (_ # bs) = name_values bs"

definition visit_ClassDef :: "ParseClassDecl \<Rightarrow> string \<Rightarrow> expr list \<Rightarrow> ParseClassDecl" where
  "visit_ClassDef v node_name node_bases =
     v\<lparr>class_decl := \<lparr>name = node_name, base_classes = name_values node_bases,
                       class_fields = [], comment = None\<rparr>\<rparr>"

text \<open>\<open>value.replace('"""', "")\<close>: the occurrences of three double quotes are removed.\<close>

fun remove_triple_quotes :: "string \<Rightarrow> string" where
  "remove_triple_quotes (a # b # c # rest) =
     (if a = CHR 0x22 \<and> b = CHR 0x22 \<and> c = CHR 0x22 then remove_triple_quotes rest
      else a # remove_triple_quotes (b # c # rest))"
| "remove_triple_quotes s = s"

definition visit_SimpleString :: "ParseClassDecl \<Rightarrow> string \<Rightarrow> error + ParseClassDecl" where
  "visit_SimpleString v node_value =
     (let comment' = remove_triple_quotes node_value;
          fs = class_fields (class_decl v)
      in if last_field_nr v = 0
         then Inr (v\<lparr>class_decl := (class_decl v)\<lparr>comment := Some comment'\<rparr>\<rparr>)
         else if last_field_nr v - 1 < length fs
         then Inr (v\<lparr>class_decl := (class_decl v)\<lparr>class_fields :=
                     fs[last_field_nr v - 1 :=
                          (fs ! (last_field_nr v - 1))\<lparr>field_comment := Some comment'\<rparr>]\<rparr>\<rparr>)
         else Inl IndexError)"

definition visit_AnnAssign :: "ParseClassDecl \<Rightarrow> AnnAssign \<Rightarrow> error + ParseClassDecl" where
  "visit_AnnAssign v node =
     (case target node of
        Name target_name \<Rightarrow>
          (case extract_type_py (annotation node) of
             Inl e \<Rightarrow> Inl e
           | Inr type' \<Rightarrow>
               (let (dv, ds) = (case ann_value node of
                                  None \<Rightarrow> (None, [])
                                | Some val \<Rightarrow>
                                    (Some (fst (parse_value val)), snd (parse_value val)))
                in Inr (v\<lparr>last_field_nr := Suc (last_field_nr v),
                           class_decl := (class_decl v)\<lparr>class_fields :=
                             class_fields (class_decl v)
                             @ [\<lparr>field_name = target_name, field_type = type',
                                 default_value = dv, field_comment = None\<rparr>]\<rparr>,
                           warnings := warnings v @ ds\<rparr>)))
      | _ \<Rightarrow> Inl EnsureTypeFailed)"

text \<open>
  The traversal. \<open>visit_AnnAssign\<close> is called for an annotated assignment that is not
  inside a function definition. \<open>visit_SimpleString\<close> is called for a string that is not
  inside a function definition and stands in a statement line whose body is at most one
  expression statement (\<open>expr_only\<close>); the strings of an annotated assignment, of a line
  with several small statements and of a one-line suite are passed over.
  \<open>visit_ClassDef\<close> has no condition. The flag says whether the traversal is inside a
  function definition.
\<close>

fun expr_only :: "small_stmt list \<Rightarrow> bool" where
  "expr_only [] = True"
| "expr_only [Expr strings] = True"
| "expr_only _ = False"

fun visit_strings :: "string list \<Rightarrow> ParseClassDecl \<Rightarrow> error + ParseClassDecl" where
  "visit_strings [] v = Inr v"
| "visit_strings (s # rest) v =
     (case visit_SimpleString v s of Inl e \<Rightarrow> Inl e | Inr v' \<Rightarrow> visit_strings rest v')"

fun visit_small_stmts ::
  "bool \<Rightarrow> bool \<Rightarrow> small_stmt list \<Rightarrow> ParseClassDecl \<Rightarrow> error + ParseClassDecl" where
  "visit_small_stmts in_function strings_seen [] v = Inr v"
| "visit_small_stmts in_function strings_seen (AnnAssignStmt node # rest) v =
     (if in_function then visit_small_stmts in_function strings_seen rest v
      else (case visit_AnnAssign v node of
              Inl e \<Rightarrow> Inl e
            | Inr v' \<Rightarrow> visit_small_stmts in_function strings_seen rest v'))"
| "visit_small_stmts in_function strings_seen (Expr strings # rest) v =
     (if in_function \<or> \<not> strings_seen then visit_small_stmts in_function strings_seen rest v
      else (case visit_strings strings v of
              Inl e \<Rightarrow> Inl e
            | Inr v' \<Rightarrow> visit_small_stmts in_function strings_seen rest v'))"
| "visit_small_stmts in_function strings_seen (OtherSmallStatement # rest) v =
     visit_small_stmts in_function strings_seen rest v"

function
  visit_stmt :: "bool \<Rightarrow> stmt \<Rightarrow> ParseClassDecl \<Rightarrow> error + ParseClassDecl" and
  visit_stmts :: "bool \<Rightarrow> stmt list \<Rightarrow> ParseClassDecl \<Rightarrow> error + ParseClassDecl"
where
  "visit_stmt in_function (SimpleStatementLine small) v =
     visit_small_stmts in_function (expr_only small) small v"
| "visit_stmt in_function (SimpleStatementSuite small) v =
     visit_small_stmts in_function False small v"
| "visit_stmt in_function (ClassDefStmt node_name node_bases node_body) v =
     visit_stmts in_function node_body (visit_ClassDef v node_name node_bases)"
| "visit_stmt in_function (FunctionDef node_body) v = visit_stmts True node_body v"
| "visit_stmt in_function (CompoundStatement node_body) v = visit_stmts in_function node_body v"
| "visit_stmts in_function [] v = Inr v"
| "visit_stmts in_function (s # rest) v =
     (case visit_stmt in_function s v of
        Inl e \<Rightarrow> Inl e
      | Inr v' \<Rightarrow> visit_stmts in_function rest v')"
  by pat_completeness auto

termination
  by (relation "measure (\<lambda>x. case x of
        Inl (in_function, s, v) \<Rightarrow> size s
      | Inr (in_function, ss, v) \<Rightarrow> size_list size ss)") auto

text \<open>
  \<open>_ParseClassDecl().visit(node).class_decl\<close>: a new visitor traverses the class node, and
  its declaration is the result.
\<close>

definition parse_class_decl :: "ClassDef \<Rightarrow> error + (ClassDecl \<times> diagnostic list)" where
  "parse_class_decl node =
     (case visit_stmt False (ClassDefStmt (class_name node) (bases node) (body node))
             \<lparr>class_decl = \<lparr>name = ''to_be_parsed'', base_classes = [],
                             class_fields = [], comment = None\<rparr>,
              last_field_nr = 0, warnings = []\<rparr> of
        Inl e \<Rightarrow> Inl e
      | Inr v \<Rightarrow> Inr (class_decl v, warnings v))"

text \<open>
  Three runs of the visitor. A doc string of the class and a doc string after a field end
  up as the comments of the class and of the field. A nested class replaces the
  declaration: the result carries the name and the fields of the nested class, and the
  fields seen before it are lost. The count of annotated assignments is not reset by a
  nested class, so a doc string in a nested class that follows a field is stored at an
  index the new field list does not have.
\<close>

lemma parse_class_decl_comments:
  "parse_class_decl
     \<lparr>class_name = ''Person'', bases = [Name ''BaseModel''],
      body = [SimpleStatementLine [Expr [''A person.'']],
              SimpleStatementLine
                [AnnAssignStmt \<lparr>target = Name ''age'', annotation = Name ''int'',
                                ann_value = None\<rparr>],
              SimpleStatementLine [Expr [''In years.'']]]\<rparr>
   = Inr (\<lparr>name = ''Person'', base_classes = [''BaseModel''],
           class_fields = [\<lparr>field_name = ''age'', field_type = PrimitiveType ''int'',
                             default_value = None, field_comment = Some ''In years.''\<rparr>],
           comment = Some ''A person.''\<rparr>, [])"
  by (simp add: parse_class_decl_def visit_ClassDef_def visit_AnnAssign_def
      visit_SimpleString_def primitive_or_user_defined_type_def Let_def)

lemma parse_class_decl_nested_class:
  "parse_class_decl
     \<lparr>class_name = ''Person'', bases = [Name ''BaseModel''],
      body = [SimpleStatementLine
                [AnnAssignStmt \<lparr>target = Name ''age'', annotation = Name ''int'',
                                ann_value = None\<rparr>],
              ClassDefStmt ''Config'' []
                [SimpleStatementLine
                   [AnnAssignStmt \<lparr>target = Name ''frozen'', annotation = Name ''bool'',
                                   ann_value = None\<rparr>]]]\<rparr>
   = Inr (\<lparr>name = ''Config'', base_classes = [],
           class_fields = [\<lparr>field_name = ''frozen'', field_type = PrimitiveType ''bool'',
                             default_value = None, field_comment = None\<rparr>],
           comment = None\<rparr>, [])"
  by (simp add: parse_class_decl_def visit_ClassDef_def visit_AnnAssign_def
      visit_SimpleString_def primitive_or_user_defined_type_def Let_def)

lemma parse_class_decl_doc_after_nested_class:
  "parse_class_decl
     \<lparr>class_name = ''Person'', bases = [Name ''BaseModel''],
      body = [SimpleStatementLine
                [AnnAssignStmt \<lparr>target = Name ''age'', annotation = Name ''int'',
                                ann_value = None\<rparr>],
              ClassDefStmt ''Config'' []
                [SimpleStatementLine [Expr [''Settings.'']]]]\<rparr>
   = Inl IndexError"
  by (simp add: parse_class_decl_def visit_ClassDef_def visit_AnnAssign_def
      visit_SimpleString_def primitive_or_user_defined_type_def Let_def)

text \<open>
  \<open>_ParseModule._finish_parsing_class\<close>: the class is parsed again from its node, recorded
  and added to the graph, and then the loop over the fields replaces the type of a field
  whose type is a \<open>UserDefinedType\<close> naming an alias node by the type extracted from the
  right-hand side of the alias (\<open>resolve_alias\<close> is the body of the loop).
\<close>

definition resolve_alias :: "(string \<rightharpoonup> AnnAssign) \<Rightarrow> ClassField \<Rightarrow> error + ClassField" where
  "resolve_alias aliases f =
     (case field_type f of
        UserDefinedType type_name \<Rightarrow>
          (case aliases type_name of
             None \<Rightarrow> Inr f
           | Some node \<Rightarrow>
               (case ann_value node of
                  None \<Rightarrow> Inl AssertionFailed
                | Some v \<Rightarrow>
                    (case extract_type_py v of
                       Inl e \<Rightarrow> Inl e
                     | Inr t \<Rightarrow> Inr (f\<lparr>field_type := t\<rparr>))))
      | _ \<Rightarrow> Inr f)"

fun resolve_aliases :: "(string \<rightharpoonup> AnnAssign) \<Rightarrow> ClassField list \<Rightarrow> error + ClassField list" where
  "resolve_aliases aliases [] = Inr []"
| "resolve_aliases aliases (f # fs) =
     (case resolve_alias aliases f of
        Inl e \<Rightarrow> Inl e
      | Inr f' \<Rightarrow>
          (case resolve_aliases aliases fs of
             Inl e \<Rightarrow> Inl e
           | Inr fs' \<Rightarrow> Inr (f' # fs')))"

definition finish_parsing_class ::
  "ParseModule \<Rightarrow> ClassDecl \<Rightarrow> error + (ParseModule \<times> ClassDecl \<times> diagnostic list)" where
  "finish_parsing_class st cls_decl =
     (case class_nodes st (name cls_decl) of
        None \<Rightarrow> Inl (KeyError (name cls_decl))
      | Some node \<Rightarrow>
          (case parse_class_decl node of
             Inl e \<Rightarrow> Inl e
           | Inr (cls, ds) \<Rightarrow>
               (case resolve_aliases (alias_nodes st) (class_fields cls) of
                  Inl e \<Rightarrow> Inl e
                | Inr fs \<Rightarrow>
                    (let cls' = cls\<lparr>class_fields := fs\<rparr> in
                     Inr (st\<lparr>pydantic_classes := (pydantic_classes st)(name cls \<mapsto> cls'),
                              model_graph := add_node (model_graph st) (name cls)\<rparr>,
                          cls', ds)))))"

text \<open>The field types of the class that \<open>_finish_parsing_class\<close> returns.\<close>

definition finished_field_types :: "ParseModule \<Rightarrow> ClassDecl \<Rightarrow> error + PyType list" where
  "finished_field_types st cls_decl =
     (case finish_parsing_class st cls_decl of
        Inl e \<Rightarrow> Inl e
      | Inr (st', cls, ds) \<Rightarrow> Inr (map field_type (class_fields cls)))"

definition alias_state :: ParseModule where
  "alias_state =
     \<lparr>parse_only_models = [], model_graph = [], package = None,
      pydantic_classes = Map.empty,
      classes = [''Person'' \<mapsto> \<lparr>name = ''Person'', base_classes = [''BaseModel''],
                                class_fields = [], comment = None\<rparr>],
      class_nodes = [''Person'' \<mapsto>
         \<lparr>class_name = ''Person'', bases = [Name ''BaseModel''],
          body =
            [SimpleStatementLine [Expr [''A person.'']],
             SimpleStatementLine
               [AnnAssignStmt
                  \<lparr>target = Name ''age'', annotation = Name ''Age'', ann_value = None\<rparr>],
             SimpleStatementLine
               [AnnAssignStmt
                  \<lparr>target = Name ''years'', annotation = Name ''Years'', ann_value = None\<rparr>],
             SimpleStatementLine
               [AnnAssignStmt
                  \<lparr>target = Name ''ages'',
                   annotation = Subscript (Name ''list'') [Index (Name ''Age'')],
                   ann_value = None\<rparr>],
             FunctionDef
               [SimpleStatementLine
                  [AnnAssignStmt
                     \<lparr>target = Name ''n'', annotation = Name ''Age'',
                      ann_value = None\<rparr>]]]\<rparr>],
      alias_nodes = [''Age'' \<mapsto> \<lparr>target = Name ''Age'', annotation = Name ''TypeAlias'',
                                  ann_value = Some (Name ''int'')\<rparr>,
                     ''Years'' \<mapsto> \<lparr>target = Name ''Years'', annotation = Name ''TypeAlias'',
                                  ann_value = Some (Name ''Age'')\<rparr>],
      external_model_names = [],
      import_table = [''BaseModel'' \<mapsto> ''pydantic'']\<rparr>"

lemma alias_state_types:
  "finished_field_types alias_state
     \<lparr>name = ''Person'', base_classes = [''BaseModel''], class_fields = [], comment = None\<rparr>
   = Inr [PrimitiveType ''int'', UserDefinedType ''Age'',
          GenericType ''list'' [UserDefinedType ''Age'']]"
  by (simp add: finished_field_types_def finish_parsing_class_def alias_state_def
      parse_class_decl_def visit_ClassDef_def visit_AnnAssign_def visit_SimpleString_def
      resolve_alias_def primitive_or_user_defined_type_def Let_def)

lemma resolve_aliases_Inr_iff:
  "resolve_aliases aliases fs = Inr fs' \<longleftrightarrow>
     list_all2 (\<lambda>f f'. resolve_alias aliases f = Inr f') fs fs'"
proof (induction fs arbitrary: fs')
  case Nil
  show ?case by auto
next
  case (Cons f fs)
  have "resolve_aliases aliases (f # fs) = Inr fs' \<longleftrightarrow>
          (\<exists>g gs. fs' = g # gs \<and> resolve_alias aliases f = Inr g \<and> resolve_aliases aliases fs = Inr gs)"
    by (auto split: sum.splits)
  then show ?case by (simp add: Cons.IH list_all2_Cons1)
qed

text \<open>
  C6, as stated, fails: only a field whose own type is a \<open>UserDefinedType\<close> is looked up
  among the aliases. With \<open>Age = int\<close> recorded as an alias, the field \<open>ages: list[Age]\<close>
  keeps the leaf \<open>UserDefinedType Age\<close> (third field below; the first two show the direct
  use of \<open>Age\<close> and that an alias of an alias is not chased).
\<close>

theorem alias_inside_generic_kept:
  "alias_nodes alias_state ''Age''
     = Some \<lparr>target = Name ''Age'', annotation = Name ''TypeAlias'',
             ann_value = Some (Name ''int'')\<rparr>
   \<and> finished_field_types alias_state
     \<lparr>name = ''Person'', base_classes = [''BaseModel''], class_fields = [], comment = None\<rparr>
   = Inr [PrimitiveType ''int'', UserDefinedType ''Age'',
          GenericType ''list'' [UserDefinedType ''Age'']]"
  using alias_state_types by (simp add: alias_state_def)

text \<open>
  C6, amended: after the fields of a model class are extracted, a field whose extracted
  type is itself a \<open>UserDefinedType\<close> naming a recorded alias gets the type extracted from
  the alias's right-hand side, substituted once and not chased further; every other field,
  among them one that names an alias only inside a generic, union or tuple type, keeps the
  type it was extracted with. A field annotated directly with the alias \<open>Age = int\<close> ends
  up with \<open>PrimitiveType int\<close>. The substitution changes nothing else: the name, the
  bases and the comment of the declaration, and the name, the default value and the
  comment of every field are those the class visitor produced.
\<close>

theorem finish_parsing_class_aliases:
  assumes "finish_parsing_class st cls_decl = Inr (st', cls, ds)"
  shows "\<exists>node parsed. class_nodes st (name cls_decl) = Some node
     \<and> parse_class_decl node = Inr (parsed, ds)
     \<and> name cls = name parsed \<and> base_classes cls = base_classes parsed
     \<and> comment cls = comment parsed
     \<and> list_all2 (\<lambda>f f'. field_name f' = field_name f \<and>
          default_value f' = default_value f \<and> field_comment f' = field_comment f \<and>
          (case field_type f of
             UserDefinedType n \<Rightarrow>
               (case alias_nodes st n of
                  None \<Rightarrow> field_type f' = field_type f
                | Some a \<Rightarrow> \<exists>v. ann_value a = Some v \<and> extract_type_py v = Inr (field_type f'))
           | _ \<Rightarrow> field_type f' = field_type f))
        (class_fields parsed) (class_fields cls)"
proof -
  from assms obtain node parsed fs where
    n: "class_nodes st (name cls_decl) = Some node" and
    p: "parse_class_decl node = Inr (parsed, ds)" and
    r: "resolve_aliases (alias_nodes st) (class_fields parsed) = Inr fs" and
    c: "cls = parsed\<lparr>class_fields := fs\<rparr>"
    by (auto simp: finish_parsing_class_def Let_def split: option.splits sum.splits prod.splits)
  have step: "field_name f' = field_name f \<and>
          default_value f' = default_value f \<and> field_comment f' = field_comment f \<and>
          (case field_type f of
             UserDefinedType n \<Rightarrow>
               (case alias_nodes st n of
                  None \<Rightarrow> field_type f' = field_type f
                | Some a \<Rightarrow> \<exists>v. ann_value a = Some v \<and> extract_type_py v = Inr (field_type f'))
           | _ \<Rightarrow> field_type f' = field_type f)"
    if "resolve_alias (alias_nodes st) f = Inr f'" for f f'
    using that
    by (auto simp: resolve_alias_def split: PyType.splits option.splits sum.splits)
  from r have "list_all2 (\<lambda>f f'. resolve_alias (alias_nodes st) f = Inr f') (class_fields parsed) fs"
    by (simp add: resolve_aliases_Inr_iff)
  then have "list_all2 (\<lambda>f f'. field_name f' = field_name f \<and>
          default_value f' = default_value f \<and> field_comment f' = field_comment f \<and>
          (case field_type f of
             UserDefinedType n \<Rightarrow>
               (case alias_nodes st n of
                  None \<Rightarrow> field_type f' = field_type f
                | Some a \<Rightarrow> \<exists>v. ann_value a = Some v \<and> extract_type_py v = Inr (field_type f'))
           | _ \<Rightarrow> field_type f' = field_type f)) (class_fields parsed) fs"
    by (rule list_all2_mono) (rule step)
  with n p c show ?thesis by simp
qed


theorem finish_parsing_class_aliases_witness:
  "\<exists>st' cls ds. finish_parsing_class alias_state
      \<lparr>name = ''Person'', base_classes = [''BaseModel''], class_fields = [], comment = None\<rparr>
      = Inr (st', cls, ds)
    \<and> map field_type (class_fields cls)
      = [PrimitiveType ''int'', UserDefinedType ''Age'',
         GenericType ''list'' [UserDefinedType ''Age'']]"
proof -
  let ?D = "\<lparr>name = ''Person'', base_classes = [''BaseModel''], class_fields = [],
             comment = None\<rparr>"
  obtain st' cls ds where ev: "finish_parsing_class alias_state ?D = Inr (st', cls, ds)"
    using alias_state_types
    by (cases "finish_parsing_class alias_state ?D") (auto simp: finished_field_types_def)
  from alias_state_types ev have ft: "map field_type (class_fields cls)
      = [PrimitiveType ''int'', UserDefinedType ''Age'',
         GenericType ''list'' [UserDefinedType ''Age'']]"
    by (simp add: finished_field_types_def)
  show ?thesis
    using finish_parsing_class_aliases[OF ev]
    by (intro exI[of _ st'] exI[of _ cls] exI[of _ ds] conjI ev ft)
qed

section \<open>The model classifier\<close>

text \<open>
  \<open>_ParseModule._is_pydantic_model\<close>. \<open>base_model_from_pydantic\<close> is the condition of its
  first statement, with the unguarded lookup \<open>self._imports["BaseModel"]\<close> evaluated only
  when \<open>BaseModel\<close> is among the bases; \<open>first_local_base\<close> is the loop, which returns at
  the first base that is a class of the module. The recursion follows base classes with
  no cycle guard, so the result is optional: \<open>None\<close> is a recursion that never returns.
\<close>

fun first_local_base :: "(string \<rightharpoonup> ClassDecl) \<Rightarrow> string list \<Rightarrow> ClassDecl option" where
  "first_local_base cs [] = None"
| "first_local_base cs (b # bs) =
     (case cs b of Some c \<Rightarrow> Some c | None \<Rightarrow> first_local_base cs bs)"

definition base_model_from_pydantic :: "ParseModule \<Rightarrow> ClassDecl \<Rightarrow> error + bool" where
  "base_model_from_pydantic st cls =
     (if ''BaseModel'' \<in> set (base_classes cls) then
        (case import_table st ''BaseModel'' of
           None \<Rightarrow> Inl (KeyError ''BaseModel'')
         | Some from_module \<Rightarrow> Inr (from_module = ''pydantic''))
      else Inr False)"

partial_function (option) is_pydantic_model :: "ParseModule \<Rightarrow> ClassDecl \<Rightarrow> (error + bool) option" where
  "is_pydantic_model st cls =
     (case base_model_from_pydantic st cls of
        Inl e \<Rightarrow> Some (Inl e)
      | Inr direct \<Rightarrow>
          (if direct then Some (Inr True)
           else (case first_local_base (classes st) (base_classes cls) of
                   None \<Rightarrow> Some (Inr False)
                 | Some c \<Rightarrow> is_pydantic_model st c)))"

definition mixin_state :: ParseModule where
  "mixin_state =
     \<lparr>parse_only_models = [], model_graph = [], package = None,
      pydantic_classes = Map.empty,
      classes = [''Mixin'' \<mapsto> \<lparr>name = ''Mixin'', base_classes = [],
                                class_fields = [], comment = None\<rparr>,
                 ''Model'' \<mapsto> \<lparr>name = ''Model'', base_classes = [''BaseModel''],
                                class_fields = [], comment = None\<rparr>,
                 ''Child'' \<mapsto> \<lparr>name = ''Child'', base_classes = [''Mixin'', ''Model''],
                                class_fields = [], comment = None\<rparr>],
      class_nodes = Map.empty, alias_nodes = Map.empty, external_model_names = [],
      import_table = [''BaseModel'' \<mapsto> ''pydantic'']\<rparr>"

text \<open>
  C2: the claim says that a class is a model as soon as some base is a local class that
  is a model. The loop returns at the first local base: \<open>Child(Mixin, Model)\<close>, where
  \<open>Mixin\<close> is a plain local class and \<open>Model(BaseModel)\<close> is a model, is classified as not
  a model.
\<close>

theorem second_local_base_ignored:
  "is_pydantic_model mixin_state
     \<lparr>name = ''Model'', base_classes = [''BaseModel''], class_fields = [], comment = None\<rparr>
     = Some (Inr True)
   \<and> is_pydantic_model mixin_state
     \<lparr>name = ''Child'', base_classes = [''Mixin'', ''Model''], class_fields = [], comment = None\<rparr>
     = Some (Inr False)"
  by (simp add: is_pydantic_model.simps base_model_from_pydantic_def mixin_state_def)

text \<open>
  C10: when a class lists \<open>BaseModel\<close> among its bases and the import table has no entry
  for \<open>BaseModel\<close>, the classifier raises \<open>KeyError\<close> instead of returning false. The
  example is a module that declares its own class \<open>BaseModel\<close> and imports nothing.
\<close>

theorem is_pydantic_model_KeyError:
  assumes "''BaseModel'' \<in> set (base_classes cls)" and "import_table st ''BaseModel'' = None"
  shows "is_pydantic_model st cls = Some (Inl (KeyError ''BaseModel''))"
  using assms
  by (subst is_pydantic_model.simps) (simp add: base_model_from_pydantic_def)

definition local_base_model_state :: ParseModule where
  "local_base_model_state =
     \<lparr>parse_only_models = [], model_graph = [], package = None,
      pydantic_classes = Map.empty,
      classes = [''BaseModel'' \<mapsto> \<lparr>name = ''BaseModel'', base_classes = [],
                                    class_fields = [], comment = None\<rparr>,
                 ''Foo'' \<mapsto> \<lparr>name = ''Foo'', base_classes = [''BaseModel''],
                              class_fields = [], comment = None\<rparr>],
      class_nodes = Map.empty, alias_nodes = Map.empty, external_model_names = [],
      import_table = Map.empty\<rparr>"

theorem is_pydantic_model_KeyError_witness:
  "''BaseModel'' \<in> set (base_classes
       \<lparr>name = ''Foo'', base_classes = [''BaseModel''], class_fields = [], comment = None\<rparr>)
   \<and> import_table local_base_model_state ''BaseModel'' = None
   \<and> is_pydantic_model local_base_model_state
       \<lparr>name = ''Foo'', base_classes = [''BaseModel''], class_fields = [], comment = None\<rparr>
     = Some (Inl (KeyError ''BaseModel''))"
proof -
  have a: "''BaseModel'' \<in> set (base_classes
       \<lparr>name = ''Foo'', base_classes = [''BaseModel''], class_fields = [], comment = None\<rparr>)"
    by simp
  have b: "import_table local_base_model_state ''BaseModel'' = None"
    by (simp add: local_base_model_state_def)
  from is_pydantic_model_KeyError[OF a b] a b show ?thesis by simp
qed

section \<open>External models\<close>

text \<open>
  \<open>importlib.util.resolve_name\<close> of the Python standard library, which
  \<open>external_models\<close> calls: an absolute name is returned as it is; a relative one needs a
  package, and its leading dots say how many trailing components of the package are
  replaced (\<open>rsplit_bits k s\<close> is the first element and the length of
  \<open>s.rsplit('.', k)\<close>).
\<close>

definition before_last_dot :: "string \<Rightarrow> string" where
  "before_last_dot s = rev (tl (dropWhile (\<lambda>c. c \<noteq> CHR ''.'') (rev s)))"

fun rsplit_bits :: "nat \<Rightarrow> string \<Rightarrow> string \<times> nat" where
  "rsplit_bits 0 s = (s, 1)"
| "rsplit_bits (Suc k) s =
     (if CHR ''.'' \<in> set s
      then (case rsplit_bits k (before_last_dot s) of (b, n) \<Rightarrow> (b, Suc n))
      else (s, 1))"

definition resolve_name_internal :: "string \<Rightarrow> string \<Rightarrow> nat \<Rightarrow> error + string" where
  "resolve_name_internal name' package' level =
     (case rsplit_bits (level - 1) package' of
        (base, n) \<Rightarrow>
          if n < level then Inl ImportError
          else Inr (if name' \<noteq> [] then base @ ''.'' @ name' else base))"

definition resolve_name :: "string \<Rightarrow> string option \<Rightarrow> error + string" where
  "resolve_name name' package' =
     (if \<not> (name' \<noteq> [] \<and> hd name' = CHR ''.'') then Inr name'
      else (case package' of
              None \<Rightarrow> Inl ImportError
            | Some p \<Rightarrow>
                if p = [] then Inl ImportError
                else (let level = length (takeWhile (\<lambda>c. c = CHR ''.'') name')
                      in resolve_name_internal (drop level name') p level)))"

text \<open>\<open>_ParseModule.external_models\<close>, with the list of the paths it filters out.\<close>

definition well_known_types :: "string list" where
  "well_known_types = [''uuid.UUID'', ''pydantic.BaseModel'']"

fun external_models_loop :: "ParseModule \<Rightarrow> string list \<Rightarrow> string set \<Rightarrow> error + string set" where
  "external_models_loop st [] ext_models = Inr ext_models"
| "external_models_loop st (n # ns) ext_models =
     (case import_table st n of
        None \<Rightarrow> Inl (KeyError n)
      | Some from_module \<Rightarrow>
          (case resolve_name from_module (package st) of
             Inl e \<Rightarrow> Inl e
           | Inr abs_module_name \<Rightarrow>
               (let abs_cls_name = abs_module_name @ ''.'' @ n
                in external_models_loop st ns
                     (if abs_cls_name \<notin> set well_known_types
                      then insert abs_cls_name ext_models else ext_models))))"

definition external_models :: "ParseModule \<Rightarrow> error + string set" where
  "external_models st = external_models_loop st (external_model_names st) {}"

definition fully_qualified_path :: "ParseModule \<Rightarrow> string \<Rightarrow> string option" where
  "fully_qualified_path st n =
     (case import_table st n of
        None \<Rightarrow> None
      | Some from_module \<Rightarrow>
          (case resolve_name from_module (package st) of
             Inl e \<Rightarrow> None
           | Inr abs_module_name \<Rightarrow> Some (abs_module_name @ ''.'' @ n)))"

lemma external_models_loop_ok:
  "\<forall>n \<in> set ns. fully_qualified_path st n \<noteq> None \<Longrightarrow>
     external_models_loop st ns acc
       = Inr (acc \<union> {p. \<exists>n \<in> set ns. fully_qualified_path st n = Some p
                          \<and> p \<notin> set well_known_types})"
proof (induction ns arbitrary: acc)
  case Nil
  show ?case by simp
next
  case (Cons n ns)
  from Cons.prems obtain f m where
    f: "import_table st n = Some f" and m: "resolve_name f (package st) = Inr m"
    by (auto simp: fully_qualified_path_def split: option.splits sum.splits)
  then have q: "fully_qualified_path st n = Some (m @ ''.'' @ n)"
    by (simp add: fully_qualified_path_def)
  from Cons.prems have rest: "\<forall>n \<in> set ns. fully_qualified_path st n \<noteq> None" by simp
  show ?case
    using f m q Cons.IH[OF rest] by (auto simp: Let_def)
qed

lemma external_models_loop_fail:
  "\<exists>n \<in> set ns. fully_qualified_path st n = None \<Longrightarrow>
     \<exists>e. external_models_loop st ns acc = Inl e"
proof (induction ns arbitrary: acc)
  case Nil
  then show ?case by simp
next
  case (Cons n ns)
  show ?case
  proof (cases "fully_qualified_path st n")
    case None
    then show ?thesis
      by (auto simp: fully_qualified_path_def split: option.splits sum.splits)
  next
    case (Some p)
    with Cons.prems have "\<exists>n \<in> set ns. fully_qualified_path st n = None" by auto
    from Cons.IH[OF this] Some show ?thesis
      by (auto simp: fully_qualified_path_def Let_def split: option.splits sum.splits)
  qed
qed

lemma fully_qualified_path_Some_iff:
  "fully_qualified_path st n = Some p \<longleftrightarrow>
     (\<exists>f m. import_table st n = Some f \<and> resolve_name f (package st) = Inr m
            \<and> p = m @ ''.'' @ n)"
  by (auto simp: fully_qualified_path_def split: option.splits sum.splits)

lemma fully_qualified_path_not_None_iff:
  "fully_qualified_path st n \<noteq> None \<longleftrightarrow>
     (\<exists>f m. import_table st n = Some f \<and> resolve_name f (package st) = Inr m)"
  by (auto simp: fully_qualified_path_def split: option.splits sum.splits)

text \<open>
  C9: when every external dependency name has an import table entry whose origin path
  resolves against the package of the module, \<open>external_models\<close> returns exactly the
  resolved paths \<open>module.name\<close> that are not one of \<open>uuid.UUID\<close> and \<open>pydantic.BaseModel\<close>;
  otherwise it raises. The example resolves a relative import of depth two.
\<close>

theorem external_models_paths:
  "((\<forall>n \<in> set (external_model_names st).
        \<exists>f m. import_table st n = Some f \<and> resolve_name f (package st) = Inr m)
     \<longrightarrow> external_models st
         = Inr {p. \<exists>n \<in> set (external_model_names st). \<exists>f m.
                 import_table st n = Some f \<and> resolve_name f (package st) = Inr m
                 \<and> p = m @ ''.'' @ n \<and> p \<notin> set well_known_types})
   \<and> (\<not> (\<forall>n \<in> set (external_model_names st).
        \<exists>f m. import_table st n = Some f \<and> resolve_name f (package st) = Inr m)
     \<longrightarrow> (\<exists>e. external_models st = Inl e))"
proof (intro conjI impI)
  assume "\<forall>n \<in> set (external_model_names st).
        \<exists>f m. import_table st n = Some f \<and> resolve_name f (package st) = Inr m"
  then have "\<forall>n \<in> set (external_model_names st). fully_qualified_path st n \<noteq> None"
    by (simp only: fully_qualified_path_not_None_iff)
  from external_models_loop_ok[OF this, of "{}"]
  have "external_models st
         = Inr {p. \<exists>n \<in> set (external_model_names st).
                 fully_qualified_path st n = Some p \<and> p \<notin> set well_known_types}"
    by (simp add: external_models_def)
  moreover have "{p. \<exists>n \<in> set (external_model_names st).
                 fully_qualified_path st n = Some p \<and> p \<notin> set well_known_types}
      = {p. \<exists>n \<in> set (external_model_names st). \<exists>f m.
                 import_table st n = Some f \<and> resolve_name f (package st) = Inr m
                 \<and> p = m @ ''.'' @ n \<and> p \<notin> set well_known_types}"
    unfolding fully_qualified_path_Some_iff by blast
  ultimately show "external_models st
         = Inr {p. \<exists>n \<in> set (external_model_names st). \<exists>f m.
                 import_table st n = Some f \<and> resolve_name f (package st) = Inr m
                 \<and> p = m @ ''.'' @ n \<and> p \<notin> set well_known_types}"
    by simp
next
  assume "\<not> (\<forall>n \<in> set (external_model_names st).
        \<exists>f m. import_table st n = Some f \<and> resolve_name f (package st) = Inr m)"
  then have "\<exists>n \<in> set (external_model_names st). fully_qualified_path st n = None"
    using fully_qualified_path_not_None_iff[of st] by blast
  from external_models_loop_fail[OF this, of "{}"]
  show "\<exists>e. external_models st = Inl e"
    by (simp add: external_models_def)
qed

definition relative_import_state :: ParseModule where
  "relative_import_state =
     visit_ImportFrom
       (visit_ImportFrom
          (visit_ImportFrom
             \<lparr>parse_only_models = [], model_graph = [], package = Some ''pkg.sub'',
              pydantic_classes = Map.empty, classes = Map.empty, class_nodes = Map.empty,
              alias_nodes = Map.empty,
              external_model_names = [''UUID'', ''Request''],
              import_table = Map.empty\<rparr>
             0 [''pydantic''] [''BaseModel''])
          0 [''uuid''] [''UUID''])
       2 [''http''] [''Request'']"

lemma relative_import_state_simps:
  "import_table relative_import_state ''UUID'' = Some ''uuid''"
  "import_table relative_import_state ''Request'' = Some ''..http''"
  "package relative_import_state = Some ''pkg.sub''"
  "external_model_names relative_import_state = [''UUID'', ''Request'']"
  by (simp_all add: relative_import_state_def visit_ImportFrom_def import_from_imports_def
      map_add_def numeral_2_eq_2)

lemma resolve_name_examples:
  "resolve_name ''uuid'' (Some ''pkg.sub'') = Inr ''uuid''"
  "resolve_name ''..http'' (Some ''pkg.sub'') = Inr ''pkg.http''"
  by (simp_all add: resolve_name_def resolve_name_internal_def before_last_dot_def)

theorem external_models_paths_witness:
  "(\<exists>f m. import_table relative_import_state ''UUID'' = Some f
       \<and> resolve_name f (package relative_import_state) = Inr m)
   \<and> (\<exists>f m. import_table relative_import_state ''Request'' = Some f
       \<and> resolve_name f (package relative_import_state) = Inr m)
   \<and> external_models relative_import_state = Inr {''pkg.http.Request''}"
proof -
  have a: "\<forall>n \<in> set (external_model_names relative_import_state).
        \<exists>f m. import_table relative_import_state n = Some f
          \<and> resolve_name f (package relative_import_state) = Inr m"
    by (simp add: relative_import_state_simps resolve_name_examples)
  have "{p. \<exists>n \<in> set (external_model_names relative_import_state). \<exists>f m.
                 import_table relative_import_state n = Some f
                 \<and> resolve_name f (package relative_import_state) = Inr m
                 \<and> p = m @ ''.'' @ n \<and> p \<notin> set well_known_types} = {''pkg.http.Request''}"
    by (rule set_eqI)
      (simp add: relative_import_state_simps resolve_name_examples well_known_types_def
        cong: conj_cong)
  with external_models_paths[of relative_import_state] a
  show ?thesis by (simp add: relative_import_state_simps resolve_name_examples)
qed

section \<open>The orderer\<close>

text \<open>
  The successors of a node in insertion order (\<open>G[n]\<close>; a name that is not a node has
  none), and the edge relation of the graph.
\<close>

definition successors :: "DiGraph \<Rightarrow> string \<Rightarrow> string list" where
  "successors g n = (case map_of g n of None \<Rightarrow> [] | Some succs \<Rightarrow> succs)"

definition edges :: "DiGraph \<Rightarrow> (string \<times> string) set" where
  "edges g = {(x, y). y \<in> set (successors g x)}"

text \<open>
  The loop over the dependencies of one extracted class in \<open>leave_Module\<close>: every
  dependency becomes an edge from the class; a dependency found in the import table is
  recorded as external, and one that is neither imported nor a class of the module gives
  a warning.
\<close>

fun add_dependencies ::
  "ParseModule \<Rightarrow> string \<Rightarrow> string list \<Rightarrow> ParseModule \<times> diagnostic list" where
  "add_dependencies st cls_name [] = (st, [])"
| "add_dependencies st cls_name (dep # deps) =
     (let st1 = st\<lparr>model_graph := add_edge (model_graph st) cls_name dep\<rparr> in
      if dep \<in> dom (import_table st1) then
        add_dependencies
          (st1\<lparr>external_model_names :=
                 (if dep \<in> set (external_model_names st1) then external_model_names st1
                  else external_model_names st1 @ [dep])\<rparr>) cls_name deps
      else if dep \<notin> dom (classes st1) then
        (case add_dependencies st1 cls_name deps of
           (st2, ds) \<Rightarrow> (st2, CannotInferOrigin dep cls_name # ds))
      else add_dependencies st1 cls_name deps)"

text \<open>
  \<open>networkx.dfs_postorder_nodes(G)\<close>, which \<open>parse\<close> calls: a depth-first search started,
  in node order, from every node not yet visited. \<open>dfs_loop\<close> is its loop over the stack
  of pairs of a node and its successors still to be looked at: a successor already visited
  is skipped, a new one is marked visited and pushed, and a node whose successors are
  exhausted is popped and emitted. (The depth limit of networkx is the number of nodes
  and is never reached.) \<open>names_of\<close> bounds the names the loop can still visit.
\<close>

definition names_of :: "DiGraph \<Rightarrow> (string \<times> string list) list \<Rightarrow> string set" where
  "names_of g stack = (\<Union>(n, succs) \<in> set g. set succs) \<union> (\<Union>(p, cs) \<in> set stack. set cs)"

function dfs_loop ::
  "DiGraph \<Rightarrow> (string \<times> string list) list \<Rightarrow> string list \<Rightarrow> string list
     \<Rightarrow> string list \<times> string list" where
  "dfs_loop g [] visited out = (visited, out)"
| "dfs_loop g ((parent, []) # stack) visited out = dfs_loop g stack visited (out @ [parent])"
| "dfs_loop g ((parent, child # children) # stack) visited out =
     (if child \<in> set visited then dfs_loop g ((parent, children) # stack) visited out
      else dfs_loop g ((child, successors g child) # (parent, children) # stack)
             (child # visited) out)"
  by pat_completeness auto

lemma successors_names: "set (successors g n) \<subseteq> names_of g stack"
proof (cases "map_of g n")
  case None
  then show ?thesis by (simp add: successors_def)
next
  case (Some succs)
  then have "(n, succs) \<in> set g" by (rule map_of_SomeD)
  with Some show ?thesis by (auto simp: successors_def names_of_def)
qed

lemma finite_names_of: "finite (names_of g stack)"
  by (auto simp: names_of_def)

termination dfs_loop
proof (relation "inv_image (less_than <*lex*> less_than)
    (\<lambda>(g, stack, visited, out).
       (card (names_of g stack - set visited),
        sum_list (map (\<lambda>(p, cs). Suc (length cs)) stack)))")
  show "wf (inv_image (less_than <*lex*> less_than)
    (\<lambda>(g, stack, visited, out).
       (card (names_of g stack - set visited),
        sum_list (map (\<lambda>(p, cs). Suc (length cs)) stack))))"
    by (intro wf_inv_image wf_lex_prod wf_less_than)
next
  fix g :: DiGraph and parent :: string
    and stack :: "(string \<times> string list) list" and visited out :: "string list"
  have "names_of g stack \<subseteq> names_of g ((parent, []) # stack)"
    by (auto simp: names_of_def)
  then have "card (names_of g stack - set visited)
      \<le> card (names_of g ((parent, []) # stack) - set visited)"
    by (intro card_mono) (auto simp: finite_names_of)
  then show "((g, stack, visited, out @ [parent]), (g, (parent, []) # stack, visited, out))
      \<in> inv_image (less_than <*lex*> less_than)
    (\<lambda>(g, stack, visited, out).
       (card (names_of g stack - set visited),
        sum_list (map (\<lambda>(p, cs). Suc (length cs)) stack)))"
    by auto
next
  fix g :: DiGraph and parent child :: string and children :: "string list"
    and stack :: "(string \<times> string list) list" and visited out :: "string list"
  assume "child \<in> set visited"
  have "names_of g ((parent, children) # stack) \<subseteq> names_of g ((parent, child # children) # stack)"
    by (auto simp: names_of_def)
  then have "card (names_of g ((parent, children) # stack) - set visited)
      \<le> card (names_of g ((parent, child # children) # stack) - set visited)"
    by (intro card_mono) (auto simp: finite_names_of)
  then show "((g, (parent, children) # stack, visited, out),
       (g, (parent, child # children) # stack, visited, out))
      \<in> inv_image (less_than <*lex*> less_than)
    (\<lambda>(g, stack, visited, out).
       (card (names_of g stack - set visited),
        sum_list (map (\<lambda>(p, cs). Suc (length cs)) stack)))"
    by auto
next
  fix g :: DiGraph and parent child :: string and children :: "string list"
    and stack :: "(string \<times> string list) list" and visited out :: "string list"
  assume nv: "child \<notin> set visited"
  have sub: "names_of g ((child, successors g child) # (parent, children) # stack)
      \<subseteq> names_of g ((parent, child # children) # stack)"
    using successors_names[of g child "(parent, child # children) # stack"]
    by (auto simp: names_of_def)
  have mem: "child \<in> names_of g ((parent, child # children) # stack)"
    by (simp add: names_of_def)
  have "names_of g ((child, successors g child) # (parent, children) # stack) - set (child # visited)
      \<subset> names_of g ((parent, child # children) # stack) - set visited"
    using sub mem nv by auto
  then have "card (names_of g ((child, successors g child) # (parent, children) # stack)
                - set (child # visited))
      < card (names_of g ((parent, child # children) # stack) - set visited)"
    by (intro psubset_card_mono) (auto simp: finite_names_of)
  then show "((g, (child, successors g child) # (parent, children) # stack, child # visited, out),
       (g, (parent, child # children) # stack, visited, out))
      \<in> inv_image (less_than <*lex*> less_than)
    (\<lambda>(g, stack, visited, out).
       (card (names_of g stack - set visited),
        sum_list (map (\<lambda>(p, cs). Suc (length cs)) stack)))"
    by auto
qed

fun dfs_starts ::
  "DiGraph \<Rightarrow> string list \<Rightarrow> string list \<Rightarrow> string list \<Rightarrow> string list \<times> string list" where
  "dfs_starts g [] visited out = (visited, out)"
| "dfs_starts g (start # starts) visited out =
     (if start \<in> set visited then dfs_starts g starts visited out
      else (case dfs_loop g [(start, successors g start)] (start # visited) out of
              (visited', out') \<Rightarrow> dfs_starts g starts visited' out'))"

definition dfs_postorder_nodes :: "DiGraph \<Rightarrow> string list" where
  "dfs_postorder_nodes g = snd (dfs_starts g (map fst g) [] [])"

text \<open>
  \<open>parse\<close>, from the graph and the declarations that \<open>_parse\<close> leaves behind: the
  dictionary by name (a later declaration of a name replaces an earlier one), the
  postorder of the graph, and the declarations of the ordered names that are in the
  dictionary.
\<close>

definition parse :: "DiGraph \<Rightarrow> ClassDecl list \<Rightarrow> ClassDecl list" where
  "parse graph models =
     (let models_by_name = map_of (rev (map (\<lambda>c. (name c, c)) models));
          ordered_models = dfs_postorder_nodes graph
      in List.map_filter models_by_name ordered_models)"

text \<open>
  \<open>before xs y x\<close>: \<open>y\<close> occurs in \<open>xs\<close> at a position before an occurrence of \<open>x\<close>.
  \<open>dfs_inv\<close> is the invariant of the search: the visited nodes are the emitted ones and
  those on the stack, no node is emitted or stacked twice, every emitted node has all its
  successors emitted before it, the successors of a stacked node that are no longer
  pending are visited, and each stacked node is a successor of the one below it.
\<close>

definition before :: "'a list \<Rightarrow> 'a \<Rightarrow> 'a \<Rightarrow> bool" where
  "before xs y x \<longleftrightarrow> (\<exists>as bs cs. xs = as @ y # bs @ x # cs)"

fun chain :: "DiGraph \<Rightarrow> string list \<Rightarrow> bool" where
  "chain g [] = True"
| "chain g [x] = True"
| "chain g (c # p # rest) = (c \<in> set (successors g p) \<and> chain g (p # rest))"

definition dfs_inv ::
  "DiGraph \<Rightarrow> (string \<times> string list) list \<Rightarrow> string list \<Rightarrow> string list \<Rightarrow> bool" where
  "dfs_inv g stack visited out \<longleftrightarrow>
     set visited = set out \<union> set (map fst stack)
   \<and> distinct (map fst stack @ out)
   \<and> (\<forall>x \<in> set out. \<forall>y \<in> set (successors g x). before out y x)
   \<and> (\<forall>(p, cs) \<in> set stack.
        set cs \<subseteq> set (successors g p) \<and> set (successors g p) \<subseteq> set cs \<union> set visited)
   \<and> chain g (map fst stack)"

subsection \<open>Building the graph\<close>

lemma distinct_add_node: "distinct (map fst g) \<Longrightarrow> distinct (map fst (add_node g n))"
  by (auto simp: add_node_def)

lemma map_fst_add_edge: "map fst (add_edge g u v) = map fst (add_node (add_node g u) v)"
  by (simp add: add_edge_def case_prod_unfold comp_def)

lemma distinct_add_edge: "distinct (map fst g) \<Longrightarrow> distinct (map fst (add_edge g u v))"
  by (simp add: map_fst_add_edge distinct_add_node)

lemma successors_add_node: "successors (add_node g n) m = successors g m"
proof (cases "n \<in> fst ` set g")
  case True
  then show ?thesis by (simp add: add_node_def)
next
  case False
  then have "map_of g n = None" by (simp add: map_of_eq_None_iff)
  then show ?thesis
    by (cases "map_of g m") (auto simp: add_node_def successors_def map_add_def)
qed

lemma map_of_update_succs:
  "map_of (map (\<lambda>(n, succs). if n = u \<and> v \<notin> set succs then (n, succs @ [v]) else (n, succs)) g) m
     = map_option (\<lambda>succs. if m = u \<and> v \<notin> set succs then succs @ [v] else succs) (map_of g m)"
  by (induction g) auto

lemma add_node_key: "n \<in> fst ` set (add_node g n)"
  by (simp add: add_node_def)

lemma add_node_keys: "fst ` set g \<subseteq> fst ` set (add_node g n)"
  by (auto simp: add_node_def)

lemma set_successors_add_edge:
  "set (successors (add_edge g u v) m)
     = (if m = u then insert v (set (successors g u)) else set (successors g m))"
proof -
  let ?g = "add_node (add_node g u) v"
  have s: "successors ?g m = successors g m" for m by (simp add: successors_add_node)
  have "u \<in> fst ` set ?g" using add_node_key[of u g] add_node_keys[of "add_node g u" v] by blast
  then obtain ss where u: "map_of ?g u = Some ss"
    by (cases "map_of ?g u") (auto simp: map_of_eq_None_iff)
  with s[of u] have ss: "ss = successors g u" by (simp add: successors_def)
  show ?thesis
  proof (cases "m = u")
    case True
    with u ss show ?thesis
      by (auto simp: add_edge_def successors_def map_of_update_succs)
  next
    case False
    with s[of m] show ?thesis
      by (cases "map_of ?g m") (auto simp: add_edge_def successors_def map_of_update_succs)
  qed
qed

lemma edges_add_edge: "edges (add_edge g u v) = insert (u, v) (edges g)"
  by (auto simp: edges_def set_successors_add_edge split: if_splits)

lemma edges_add_node: "edges (add_node g n) = edges g"
  by (simp add: edges_def successors_add_node)

lemma add_dependencies_edges:
  "add_dependencies st c deps = (st', ds)
     \<Longrightarrow> edges (model_graph st') = edges (model_graph st) \<union> {(c, d) | d. d \<in> set deps}"
proof (induction deps arbitrary: st st' ds)
  case Nil
  then show ?case by simp
next
  case (Cons dep deps)
  let ?st1 = "st\<lparr>model_graph := add_edge (model_graph st) c dep\<rparr>"
  have "\<exists>st0 ds'. model_graph st0 = add_edge (model_graph st) c dep
      \<and> add_dependencies st0 c deps = (st', ds')"
  proof (cases "dep \<in> dom (import_table st)")
    case True
    let ?st0 = "?st1\<lparr>external_model_names :=
                 (if dep \<in> set (external_model_names ?st1) then external_model_names ?st1
                  else external_model_names ?st1 @ [dep])\<rparr>"
    from Cons.prems True have "add_dependencies ?st0 c deps = (st', ds)"
      by (simp add: Let_def)
    moreover have "model_graph ?st0 = add_edge (model_graph st) c dep" by simp
    ultimately show ?thesis by blast
  next
    case False
    have m: "model_graph ?st1 = add_edge (model_graph st) c dep" by simp
    show ?thesis
    proof (cases "dep \<in> dom (classes st)")
      case True
      with Cons.prems False have "add_dependencies ?st1 c deps = (st', ds)"
        by (simp add: Let_def)
      with m show ?thesis by blast
    next
      case nc: False
      obtain st2 ds2 where a: "add_dependencies ?st1 c deps = (st2, ds2)"
        by (cases "add_dependencies ?st1 c deps")
      with Cons.prems False nc have "st2 = st'" by (simp add: Let_def)
      with a m show ?thesis by blast
    qed
  qed
  then obtain st0 ds' where g: "model_graph st0 = add_edge (model_graph st) c dep"
    and r: "add_dependencies st0 c deps = (st', ds')" by blast
  from Cons.IH[OF r] g show ?case by (auto simp: edges_add_edge)
qed

subsection \<open>The invariant of the search\<close>

lemma chain_tail: "chain g (x # xs) \<Longrightarrow> chain g xs"
  by (cases xs) simp_all

lemma chain_reach:
  "chain g (t0 # ns) \<Longrightarrow> s \<in> set (t0 # ns) \<Longrightarrow> (s, t0) \<in> (edges g)\<^sup>*"
proof (induction ns arbitrary: t0)
  case Nil
  then show ?case by simp
next
  case (Cons p rest)
  show ?case
  proof (cases "s = t0")
    case True
    then show ?thesis by simp
  next
    case False
    with Cons.prems have "s \<in> set (p # rest)" by simp
    moreover from Cons.prems have "chain g (p # rest)" by simp
    ultimately have "(s, p) \<in> (edges g)\<^sup>*" by (rule Cons.IH[rotated])
    moreover from Cons.prems have "(p, t0) \<in> edges g" by (simp add: edges_def)
    ultimately show ?thesis by (rule rtrancl_into_rtrancl)
  qed
qed

lemma before_append: "before xs y x \<Longrightarrow> before (xs @ zs) y x"
proof -
  assume "before xs y x"
  then obtain as bs cs where "xs = as @ y # bs @ x # cs" unfolding before_def by blast
  then have "xs @ zs = as @ y # bs @ x # (cs @ zs)" by simp
  then show ?thesis unfolding before_def by blast
qed

lemma before_snoc: "y \<in> set xs \<Longrightarrow> before (xs @ [x]) y x"
proof -
  assume "y \<in> set xs"
  then obtain as bs where "xs = as @ y # bs" by (auto dest: split_list)
  then have "xs @ [x] = as @ y # bs @ x # []" by simp
  then show ?thesis unfolding before_def by blast
qed

lemma dfs_invD:
  assumes "dfs_inv g stack visited out"
  shows "set visited = set out \<union> set (map fst stack)"
    and "distinct (map fst stack @ out)"
    and "\<And>x y. x \<in> set out \<Longrightarrow> y \<in> set (successors g x) \<Longrightarrow> before out y x"
    and "\<And>p cs. (p, cs) \<in> set stack \<Longrightarrow> set cs \<subseteq> set (successors g p)"
    and "\<And>p cs. (p, cs) \<in> set stack \<Longrightarrow> set (successors g p) \<subseteq> set cs \<union> set visited"
    and "chain g (map fst stack)"
proof -
  note i = assms[unfolded dfs_inv_def]
  from i show "set visited = set out \<union> set (map fst stack)" by (elim conjE)
  from i show "distinct (map fst stack @ out)" by (elim conjE)
  from i have o: "\<forall>x \<in> set out. \<forall>y \<in> set (successors g x). before out y x" by (elim conjE)
  then show "\<And>x y. x \<in> set out \<Longrightarrow> y \<in> set (successors g x) \<Longrightarrow> before out y x" by blast
  from i have s: "\<forall>(p, cs) \<in> set stack.
        set cs \<subseteq> set (successors g p) \<and> set (successors g p) \<subseteq> set cs \<union> set visited"
    by (elim conjE)
  then show "\<And>p cs. (p, cs) \<in> set stack \<Longrightarrow> set cs \<subseteq> set (successors g p)" by blast
  from s show "\<And>p cs. (p, cs) \<in> set stack \<Longrightarrow> set (successors g p) \<subseteq> set cs \<union> set visited"
    by blast
  from i show "chain g (map fst stack)" by (elim conjE)
qed

lemma dfs_invI:
  assumes "set visited = set out \<union> set (map fst stack)"
    and "distinct (map fst stack @ out)"
    and "\<And>x y. x \<in> set out \<Longrightarrow> y \<in> set (successors g x) \<Longrightarrow> before out y x"
    and "\<And>p cs. (p, cs) \<in> set stack \<Longrightarrow> set cs \<subseteq> set (successors g p)"
    and "\<And>p cs. (p, cs) \<in> set stack \<Longrightarrow> set (successors g p) \<subseteq> set cs \<union> set visited"
    and "chain g (map fst stack)"
  shows "dfs_inv g stack visited out"
  unfolding dfs_inv_def using assms by blast

lemma dfs_inv_pop:
  assumes ac: "acyclic (edges g)" and inv: "dfs_inv g ((p, []) # stack) visited out"
  shows "dfs_inv g stack visited (out @ [p])"
proof (rule dfs_invI)
  note d = dfs_invD[OF inv]
  from d(1) show "set visited = set (out @ [p]) \<union> set (map fst stack)" by auto
  from d(2) show "distinct (map fst stack @ out @ [p])" by auto
  from d(6) show "chain g (map fst stack)" by (simp add: chain_tail)
  show "set cs \<subseteq> set (successors g q)" if "(q, cs) \<in> set stack" for q cs
    using that d(4)[of q cs] by simp
  show "set (successors g q) \<subseteq> set cs \<union> set visited" if "(q, cs) \<in> set stack" for q cs
    using that d(5)[of q cs] by simp
  have out: "y \<in> set out" if y: "y \<in> set (successors g p)" for y
  proof (rule ccontr)
    assume n: "y \<notin> set out"
    from d(5)[of p "[]"] y have "y \<in> set visited" by auto
    with d(1) n have "y \<in> set (p # map fst stack)" by auto
    moreover from d(6) have "chain g (p # map fst stack)" by simp
    ultimately have "(y, p) \<in> (edges g)\<^sup>*" by (intro chain_reach)
    moreover from y have "(p, y) \<in> edges g" by (simp add: edges_def)
    ultimately have "(p, p) \<in> (edges g)\<^sup>+" by (rule rtrancl_into_trancl2[rotated])
    with ac show False by (simp add: acyclic_def)
  qed
  show "before (out @ [p]) y x" if "x \<in> set (out @ [p])" "y \<in> set (successors g x)" for x y
  proof (cases "x = p")
    case True
    with that out show ?thesis by (simp add: before_snoc)
  next
    case False
    with that have "x \<in> set out" by simp
    from this that(2) have "before out y x" by (rule d(3))
    then show ?thesis by (rule before_append)
  qed
qed

lemma dfs_inv_skip:
  assumes inv: "dfs_inv g ((p, c # cs) # stack) visited out" and c: "c \<in> set visited"
  shows "dfs_inv g ((p, cs) # stack) visited out"
proof (rule dfs_invI)
  note d = dfs_invD[OF inv]
  from d(1) show "set visited = set out \<union> set (map fst ((p, cs) # stack))" by simp
  from d(2) show "distinct (map fst ((p, cs) # stack) @ out)" by simp
  from d(6) show "chain g (map fst ((p, cs) # stack))" by simp
  show "before out y x" if "x \<in> set out" "y \<in> set (successors g x)" for x y
    using that by (rule d(3))
  show "set ds \<subseteq> set (successors g q)" if "(q, ds) \<in> set ((p, cs) # stack)" for q ds
    using that d(4)[of p "c # cs"] d(4)[of q ds] by auto
  show "set (successors g q) \<subseteq> set ds \<union> set visited" if "(q, ds) \<in> set ((p, cs) # stack)" for q ds
    using that d(5)[of p "c # cs"] d(5)[of q ds] c by auto
qed

lemma dfs_inv_push:
  assumes inv: "dfs_inv g ((p, c # cs) # stack) visited out" and c: "c \<notin> set visited"
  shows "dfs_inv g ((c, successors g c) # (p, cs) # stack) (c # visited) out"
proof (rule dfs_invI)
  note d = dfs_invD[OF inv]
  from d(1) show "set (c # visited)
      = set out \<union> set (map fst ((c, successors g c) # (p, cs) # stack))" by auto
  from d(1) d(2) c show "distinct (map fst ((c, successors g c) # (p, cs) # stack) @ out)"
    by auto
  from d(4)[of p "c # cs"] have "c \<in> set (successors g p)" by simp
  with d(6) show "chain g (map fst ((c, successors g c) # (p, cs) # stack))" by simp
  show "before out y x" if "x \<in> set out" "y \<in> set (successors g x)" for x y
    using that by (rule d(3))
  show "set ds \<subseteq> set (successors g q)"
    if "(q, ds) \<in> set ((c, successors g c) # (p, cs) # stack)" for q ds
    using that d(4)[of p "c # cs"] d(4)[of q ds] by auto
  show "set (successors g q) \<subseteq> set ds \<union> set (c # visited)"
    if "(q, ds) \<in> set ((c, successors g c) # (p, cs) # stack)" for q ds
    using that d(5)[of p "c # cs"] d(5)[of q ds] by auto
qed

lemma dfs_loop_inv:
  "acyclic (edges g) \<Longrightarrow> dfs_inv g stack visited out
    \<Longrightarrow> dfs_loop g stack visited out = (visited', out')
    \<Longrightarrow> dfs_inv g [] visited' out'"
proof (induction g stack visited out rule: dfs_loop.induct)
  case (1 g visited out)
  then show ?case by simp
next
  case (2 g parent stack visited out)
  from 2 show ?case by (simp add: dfs_inv_pop)
next
  case (3 g parent child children stack visited out)
  show ?case
  proof (cases "child \<in> set visited")
    case True
    with 3 show ?thesis by (simp add: dfs_inv_skip)
  next
    case False
    with 3 show ?thesis by (simp add: dfs_inv_push)
  qed
qed

lemma dfs_starts_inv:
  "acyclic (edges g) \<Longrightarrow> dfs_inv g [] visited out
    \<Longrightarrow> dfs_starts g starts visited out = (visited', out')
    \<Longrightarrow> dfs_inv g [] visited' out'"
proof (induction starts arbitrary: visited out)
  case Nil
  then show ?case by simp
next
  case (Cons start starts)
  show ?case
  proof (cases "start \<in> set visited")
    case True
    with Cons show ?thesis by simp
  next
    case False
    obtain v1 o1 where l: "dfs_loop g [(start, successors g start)] (start # visited) out = (v1, o1)"
      by (cases "dfs_loop g [(start, successors g start)] (start # visited) out")
    from Cons.prems(2) False have "dfs_inv g [(start, successors g start)] (start # visited) out"
      by (auto simp: dfs_inv_def)
    from Cons.prems(1) this l have "dfs_inv g [] v1 o1" by (rule dfs_loop_inv)
    with Cons.IH[OF Cons.prems(1) this] Cons.prems(3) False l show ?thesis by simp
  qed
qed

lemma dfs_postorder_nodes_inv:
  assumes "acyclic (edges g)"
  shows "distinct (dfs_postorder_nodes g)"
    and "x \<in> set (dfs_postorder_nodes g) \<Longrightarrow> y \<in> set (successors g x)
           \<Longrightarrow> before (dfs_postorder_nodes g) y x"
proof -
  obtain v out where r: "dfs_starts g (map fst g) [] [] = (v, out)"
    by (cases "dfs_starts g (map fst g) [] []")
  have "dfs_inv g [] [] []" by (simp add: dfs_inv_def)
  from assms this r have inv: "dfs_inv g [] v out" by (rule dfs_starts_inv)
  from r have o: "dfs_postorder_nodes g = out" by (simp add: dfs_postorder_nodes_def)
  from inv o show "distinct (dfs_postorder_nodes g)" by (simp add: dfs_inv_def)
  from inv o show "x \<in> set (dfs_postorder_nodes g) \<Longrightarrow> y \<in> set (successors g x)
           \<Longrightarrow> before (dfs_postorder_nodes g) y x"
    by (simp add: dfs_inv_def)
qed

lemma dfs_loop_visited_mono:
  "dfs_loop g stack visited out = (visited', out') \<Longrightarrow> set visited \<subseteq> set visited'"
proof (induction g stack visited out rule: dfs_loop.induct)
  case (1 g visited out)
  then show ?case by simp
next
  case (2 g parent stack visited out)
  then show ?case by simp
next
  case (3 g parent child children stack visited out)
  then show ?case by (cases "child \<in> set visited") auto
qed

lemma dfs_starts_visited:
  "dfs_starts g starts visited out = (visited', out')
     \<Longrightarrow> set starts \<union> set visited \<subseteq> set visited'"
proof (induction starts arbitrary: visited out)
  case Nil
  then show ?case by simp
next
  case (Cons start starts)
  show ?case
  proof (cases "start \<in> set visited")
    case True
    with Cons.prems have "dfs_starts g starts visited out = (visited', out')" by simp
    from Cons.IH[OF this] True show ?thesis by auto
  next
    case False
    obtain v1 o1 where l: "dfs_loop g [(start, successors g start)] (start # visited) out = (v1, o1)"
      by (cases "dfs_loop g [(start, successors g start)] (start # visited) out")
    with Cons.prems False have "dfs_starts g starts v1 o1 = (visited', out')" by simp
    from Cons.IH[OF this] dfs_loop_visited_mono[OF l] show ?thesis by auto
  qed
qed

lemma dfs_postorder_nodes_all:
  assumes "acyclic (edges g)"
  shows "fst ` set g \<subseteq> set (dfs_postorder_nodes g)"
proof -
  obtain v out where r: "dfs_starts g (map fst g) [] [] = (v, out)"
    by (cases "dfs_starts g (map fst g) [] []")
  have "dfs_inv g [] [] []" by (simp add: dfs_inv_def)
  from assms this r have inv: "dfs_inv g [] v out" by (rule dfs_starts_inv)
  then have "set v = set out" by (simp add: dfs_inv_def)
  moreover from dfs_starts_visited[OF r] have "fst ` set g \<subseteq> set v" by simp
  moreover from r have "dfs_postorder_nodes g = out" by (simp add: dfs_postorder_nodes_def)
  ultimately show ?thesis by simp
qed

lemma before_filter:
  "before xs y x \<Longrightarrow> P y \<Longrightarrow> P x \<Longrightarrow> before (filter P xs) y x"
proof -
  assume "before xs y x" and p: "P y" "P x"
  then obtain as bs cs where "xs = as @ y # bs @ x # cs" unfolding before_def by blast
  with p have "filter P xs = filter P as @ y # filter P bs @ x # filter P cs" by simp
  then show ?thesis unfolding before_def by blast
qed

lemma before_index:
  assumes d: "distinct xs" and b: "before xs y x"
    and i: "i < length xs" "xs ! i = x" and j: "j < length xs" "xs ! j = y"
  shows "j < i"
proof -
  from b obtain as bs cs where xs: "xs = as @ y # bs @ x # cs" unfolding before_def by blast
  have ly: "xs ! length as = y" "length as < length xs" by (simp_all add: xs)
  have "xs ! (length as + Suc (length bs)) = x"
    by (simp add: xs nth_append)
  moreover have "length as + Suc (length bs) < length xs" by (simp add: xs)
  ultimately have "i = length as + Suc (length bs)"
    using d i nth_eq_iff_index_eq[of xs i "length as + Suc (length bs)"] by simp
  moreover from ly d j nth_eq_iff_index_eq[of xs j "length as"] have "j = length as" by simp
  ultimately show ?thesis by simp
qed

lemma models_by_name_Some:
  "map_of (rev (map (\<lambda>c. (name c, c)) ms)) k = Some c \<Longrightarrow> name c = k"
  by (auto dest: map_of_SomeD)

lemma models_by_name_dom:
  "(map_of (rev (map (\<lambda>c. (name c, c)) ms)) k \<noteq> None) = (k \<in> name ` set ms)"
proof -
  have "(map_of (rev (map (\<lambda>c. (name c, c)) ms)) k = None)
      = (k \<notin> fst ` set (rev (map (\<lambda>c. (name c, c)) ms)))"
    by (rule map_of_eq_None_iff)
  then show ?thesis by (simp add: image_image)
qed

lemma map_name_map_filter:
  assumes "\<And>k c. f k = Some c \<Longrightarrow> name c = k"
  shows "map name (List.map_filter f xs) = filter (\<lambda>k. f k \<noteq> None) xs"
  using assms by (induction xs) (auto simp: map_filter_simps split: option.splits)

lemma map_name_parse:
  "map name (parse g ms) = filter (\<lambda>k. k \<in> name ` set ms) (dfs_postorder_nodes g)"
proof -
  have "map name (parse g ms)
      = filter (\<lambda>k. map_of (rev (map (\<lambda>c. (name c, c)) ms)) k \<noteq> None) (dfs_postorder_nodes g)"
    unfolding parse_def Let_def by (rule map_name_map_filter) (rule models_by_name_Some)
  then show ?thesis by (simp only: models_by_name_dom)
qed

subsection \<open>Dependencies come first\<close>

text \<open>
  C1: for every acyclic dependency graph, the names of the output of \<open>parse\<close> are the
  postorder of the depth-first search over every node of the graph, filtered to the names
  of the extracted classes; every node of the graph is in that postorder; no name occurs
  twice; and whenever the class at index \<open>i\<close> has an edge to the class at index \<open>j\<close>, then
  \<open>j < i\<close>. The example is the diamond of the specification (D depends on B and C, both
  depend on A), with a dependency of A that is not a model.
\<close>

theorem parse_dependencies_first:
  assumes "acyclic (edges g)"
  shows "map name (parse g ms) = filter (\<lambda>k. k \<in> name ` set ms) (dfs_postorder_nodes g)
    \<and> fst ` set g \<subseteq> set (dfs_postorder_nodes g)
    \<and> distinct (map name (parse g ms))
    \<and> (\<forall>i j. i < length (parse g ms) \<longrightarrow> j < length (parse g ms)
          \<longrightarrow> name (parse g ms ! j) \<in> set (successors g (name (parse g ms ! i)))
          \<longrightarrow> j < i)"
proof (intro conjI allI impI)
  let ?O = "map name (parse g ms)"
  let ?P = "\<lambda>k. k \<in> name ` set ms"
  show eq: "?O = filter ?P (dfs_postorder_nodes g)" by (rule map_name_parse)
  show "fst ` set g \<subseteq> set (dfs_postorder_nodes g)"
    using assms by (rule dfs_postorder_nodes_all)
  show d: "distinct ?O"
    unfolding eq using dfs_postorder_nodes_inv(1)[OF assms] by (rule distinct_filter)
  fix i j
  assume i: "i < length (parse g ms)" and j: "j < length (parse g ms)"
    and e: "name (parse g ms ! j) \<in> set (successors g (name (parse g ms ! i)))"
  let ?x = "name (parse g ms ! i)" and ?y = "name (parse g ms ! j)"
  from i have xi: "?O ! i = ?x" by simp
  from j have yj: "?O ! j = ?y" by simp
  from i xi have "?x \<in> set ?O" by (metis length_map nth_mem)
  then have x: "?x \<in> set (dfs_postorder_nodes g)" "?P ?x" unfolding eq by simp_all
  from j yj have "?y \<in> set ?O" by (metis length_map nth_mem)
  then have y: "?P ?y" unfolding eq by simp
  from dfs_postorder_nodes_inv(2)[OF assms x(1) e]
  have "before (dfs_postorder_nodes g) ?y ?x" .
  then have "before ?O ?y ?x" unfolding eq using y x(2) by (rule before_filter)
  with d show "j < i" using i xi j yj by (intro before_index[of ?O ?y ?x i j]) simp_all
qed

definition diamond :: DiGraph where
  "diamond = add_edge (add_edge (add_edge (add_edge (add_edge
      (add_node (add_node (add_node (add_node [] ''D'') ''B'') ''C'') ''A'')
      ''D'' ''B'') ''D'' ''C'') ''B'' ''A'') ''C'' ''A'') ''A'' ''UUID''"

definition diamond_models :: "ClassDecl list" where
  "diamond_models =
     [\<lparr>name = ''A'', base_classes = [''BaseModel''], class_fields = [], comment = None\<rparr>,
      \<lparr>name = ''B'', base_classes = [''A''], class_fields = [], comment = None\<rparr>,
      \<lparr>name = ''C'', base_classes = [''A''], class_fields = [], comment = None\<rparr>,
      \<lparr>name = ''D'', base_classes = [''B'', ''C''], class_fields = [], comment = None\<rparr>]"

lemma diamond_eq:
  "diamond = [(''D'', [''B'', ''C'']), (''B'', [''A'']), (''C'', [''A'']),
              (''A'', [''UUID'']), (''UUID'', [])]"
  by (simp add: diamond_def add_edge_def add_node_def)

lemma diamond_postorder:
  "dfs_postorder_nodes diamond = [''UUID'', ''A'', ''B'', ''C'', ''D'']"
  by (simp add: diamond_eq dfs_postorder_nodes_def successors_def)

lemma diamond_parse:
  "map name (parse diamond diamond_models) = [''A'', ''B'', ''C'', ''D'']"
  by (simp add: parse_def diamond_postorder diamond_models_def map_filter_simps)

definition diamond_rank :: "string \<Rightarrow> nat" where
  "diamond_rank n =
     (if n = ''D'' then 4 else if n = ''B'' then 3 else if n = ''C'' then 3
      else if n = ''A'' then 2 else if n = ''UUID'' then 1 else 0)"

lemma diamond_acyclic: "acyclic (edges diamond)"
proof (rule acyclicI_order[where f = diamond_rank])
  fix a b
  assume "(a, b) \<in> edges diamond"
  then show "diamond_rank b < diamond_rank a"
    by (auto simp add: edges_def successors_def diamond_eq diamond_rank_def split: if_splits)
qed

theorem parse_dependencies_first_witness:
  "acyclic (edges diamond)
   \<and> map name (parse diamond diamond_models) = [''A'', ''B'', ''C'', ''D'']
   \<and> distinct (map name (parse diamond diamond_models))"
proof -
  have "distinct (map name (parse diamond diamond_models))"
    using parse_dependencies_first[OF diamond_acyclic, of diamond_models] by (elim conjE)
  with diamond_acyclic diamond_parse show ?thesis by (intro conjI)
qed

end
